theory Spec2Isabelle
  imports Complex_Main "HOL-Library.Sublist"
begin

text \<open>
  The dispatch of the ONIVA backend: \<open>DispatchService\<close> (\<open>findAndAssignDriver\<close>,
  \<open>sendAssignmentRequest\<close>, \<open>waitForDriverResponse\<close>, \<open>acceptBooking\<close>, \<open>rejectBooking\<close>),
  \<open>Driver.getNearestDrivers\<close> and \<open>Trip.cancelTrip\<close>, over the tables of
  \<open>database/schema.sql\<close>.

  Every SQL statement is one atomic step on the tables. A promise is followed through the
  firings of its timer, which are given as a list; what drivers, clients and the store do
  meanwhile is part of that list and of the world, and the properties hold for all of them.
  Distances are real numbers.
\<close>

section \<open>Data model (database/schema.sql)\<close>

text \<open>
  The CHECK constraints of the schema enumerate the values of the status columns; each
  becomes a datatype. Identifiers are the SERIAL integers of the schema, timestamps are
  milliseconds on one clock (the database's NOW() and the server's Date.now()).
\<close>

datatype request_status = pending | accepted | rejected | expired

datatype trip_status =
  trip_pending | trip_accepted | waiting_for_pickup | in_progress | completed | cancelled

datatype verification_status =
  verification_pending | approved | verification_rejected | suspended

datatype user_status = active | inactive | user_suspended

record booking_request =
  br_id :: nat
  br_trip_id :: nat
  br_driver_id :: nat
  br_status :: request_status
  rejection_reason :: "string option"
  accepted_at :: "nat option"
  rejected_at :: "nat option"
  expires_at :: nat
  created_at :: nat

record trip =
  t_id :: nat
  t_driver_id :: "nat option"
  t_status :: trip_status
  cancellation_reason :: "string option"
  updated_at :: nat

record driver =
  user_id :: nat
  region :: string
  verification_status :: verification_status
  is_online :: bool
  rating :: real
  current_latitude :: "real option"
  current_longitude :: "real option"

record user =
  u_id :: nat
  phone :: string
  full_name :: string
  status :: user_status

text \<open>
  The world is the content of the four tables the dispatch code touches, the sequence
  behind \<open>booking_requests.id\<close>, the clock, and the behaviour of the store:
  \<open>outage w n\<close> says that the \<open>n\<close>-th query sent to the pool throws instead of answering.
\<close>

record world =
  booking_requests :: "booking_request list"
  trips :: "trip list"
  drivers :: "driver list"
  users :: "user list"
  next_request_id :: nat
  clock :: nat
  queries :: nat
  outage :: "nat \<Rightarrow> bool"

datatype error = StoreError | Error string

section \<open>The store: one definition per SQL statement\<close>

definition store_fails :: "world \<Rightarrow> bool" where
  "store_fails w = outage w (queries w)"

definition answered :: "world \<Rightarrow> world" where
  "answered w = w\<lparr>queries := Suc (queries w)\<rparr>"

text \<open>\<open>UPDATE t SET ... WHERE hit\<close> rewrites the rows that match and \<open>RETURNING *\<close> lists them.\<close>

definition update_where :: "('r \<Rightarrow> bool) \<Rightarrow> ('r \<Rightarrow> 'r) \<Rightarrow> 'r list \<Rightarrow> 'r list" where
  "update_where hit f rows = map (\<lambda>r. if hit r then f r else r) rows"

definition returning :: "('r \<Rightarrow> bool) \<Rightarrow> ('r \<Rightarrow> 'r) \<Rightarrow> 'r list \<Rightarrow> 'r list" where
  "returning hit f rows = map f (filter hit rows)"

text \<open>
  \<^verbatim>\<open>UPDATE booking_requests SET status = 'accepted', accepted_at = NOW()
  WHERE id = $2 AND driver_id = $3 RETURNING *\<close>
\<close>

definition accept_query ::
    "nat \<Rightarrow> nat \<Rightarrow> world \<Rightarrow> (error + booking_request list) \<times> world" where
  "accept_query requestId driverId w =
     (if store_fails w then (Inl StoreError, answered w)
      else
        (Inr (returning (\<lambda>r. br_id r = requestId \<and> br_driver_id r = driverId)
                (\<lambda>r. r\<lparr>br_status := accepted, accepted_at := Some (clock w)\<rparr>)
                (booking_requests w)),
         answered (w\<lparr>booking_requests :=
            update_where (\<lambda>r. br_id r = requestId \<and> br_driver_id r = driverId)
              (\<lambda>r. r\<lparr>br_status := accepted, accepted_at := Some (clock w)\<rparr>)
              (booking_requests w)\<rparr>)))"

text \<open>
  \<^verbatim>\<open>UPDATE trips SET driver_id = $1, status = 'accepted', updated_at = NOW() WHERE id = $3\<close>
\<close>

definition bind_trip_query :: "nat \<Rightarrow> nat \<Rightarrow> world \<Rightarrow> (error + unit) \<times> world" where
  "bind_trip_query driverId tripId w =
     (if store_fails w then (Inl StoreError, answered w)
      else
        (Inr (),
         answered (w\<lparr>trips :=
            update_where (\<lambda>t. t_id t = tripId)
              (\<lambda>t. t\<lparr>t_driver_id := Some driverId, t_status := trip_accepted,
                      updated_at := clock w\<rparr>)
              (trips w)\<rparr>)))"

text \<open>
  \<^verbatim>\<open>UPDATE booking_requests SET status = 'rejected', rejection_reason = $2, rejected_at = NOW()
  WHERE id = $3 AND driver_id = $4 RETURNING *\<close>
\<close>

definition reject_query ::
    "nat \<Rightarrow> nat \<Rightarrow> string \<Rightarrow> world \<Rightarrow> (error + booking_request list) \<times> world" where
  "reject_query requestId driverId reason w =
     (if store_fails w then (Inl StoreError, answered w)
      else
        (Inr (returning (\<lambda>r. br_id r = requestId \<and> br_driver_id r = driverId)
                (\<lambda>r. r\<lparr>br_status := rejected, rejection_reason := Some reason,
                        rejected_at := Some (clock w)\<rparr>)
                (booking_requests w)),
         answered (w\<lparr>booking_requests :=
            update_where (\<lambda>r. br_id r = requestId \<and> br_driver_id r = driverId)
              (\<lambda>r. r\<lparr>br_status := rejected, rejection_reason := Some reason,
                      rejected_at := Some (clock w)\<rparr>)
              (booking_requests w)\<rparr>)))"

text \<open>\<^verbatim>\<open>SELECT status FROM booking_requests WHERE id = $1\<close>\<close>

definition status_query :: "nat \<Rightarrow> world \<Rightarrow> (error + request_status list) \<times> world" where
  "status_query requestId w =
     (if store_fails w then (Inl StoreError, answered w)
      else (Inr (map br_status (filter (\<lambda>r. br_id r = requestId) (booking_requests w))),
            answered w))"

text \<open>\<^verbatim>\<open>UPDATE booking_requests SET status = 'expired' WHERE id = $2\<close>\<close>

definition expire_query :: "nat \<Rightarrow> world \<Rightarrow> (error + unit) \<times> world" where
  "expire_query requestId w =
     (if store_fails w then (Inl StoreError, answered w)
      else
        (Inr (),
         answered (w\<lparr>booking_requests :=
            update_where (\<lambda>r. br_id r = requestId) (\<lambda>r. r\<lparr>br_status := expired\<rparr>)
              (booking_requests w)\<rparr>)))"

text \<open>
  \<^verbatim>\<open>INSERT INTO booking_requests (trip_id, driver_id, status, expires_at, created_at)
  VALUES ($1, $2, 'pending', NOW() + INTERVAL '1 minute', NOW()) RETURNING *\<close>
\<close>

definition insert_query :: "nat \<Rightarrow> nat \<Rightarrow> world \<Rightarrow> (error + booking_request) \<times> world" where
  "insert_query tripId driverId w =
     (if store_fails w then (Inl StoreError, answered w)
      else
        (Inr \<lparr>br_id = next_request_id w, br_trip_id = tripId, br_driver_id = driverId,
              br_status = pending, rejection_reason = None, accepted_at = None,
              rejected_at = None, expires_at = clock w + 60000, created_at = clock w\<rparr>,
         answered (w\<lparr>booking_requests := booking_requests w @
              [\<lparr>br_id = next_request_id w, br_trip_id = tripId, br_driver_id = driverId,
                br_status = pending, rejection_reason = None, accepted_at = None,
                rejected_at = None, expires_at = clock w + 60000, created_at = clock w\<rparr>],
            next_request_id := Suc (next_request_id w)\<rparr>)))"

text \<open>
  Trip.cancelTrip runs, inside one transaction,
  \<^verbatim>\<open>UPDATE trips SET status = 'cancelled', cancellation_reason = $1, updated_at = NOW()
  WHERE id = $2 AND status != 'completed' RETURNING *\<close>
  and throws when no row comes back. The transaction is one interaction with the store.
\<close>

definition cancelTrip :: "nat \<Rightarrow> string \<Rightarrow> world \<Rightarrow> (error + trip) \<times> world" where
  "cancelTrip tripId reason w =
     (if store_fails w then (Inl StoreError, answered w)
      else
        (case returning (\<lambda>t. t_id t = tripId \<and> t_status t \<noteq> completed)
                (\<lambda>t. t\<lparr>t_status := cancelled, cancellation_reason := Some reason,
                        updated_at := clock w\<rparr>)
                (trips w) of
           [] \<Rightarrow> (Inl (Error ''Cannot cancel completed trip''), answered w)
         | t # _ \<Rightarrow>
             (Inr t,
              answered (w\<lparr>trips :=
                 update_where (\<lambda>t. t_id t = tripId \<and> t_status t \<noteq> completed)
                   (\<lambda>t. t\<lparr>t_status := cancelled, cancellation_reason := Some reason,
                           updated_at := clock w\<rparr>)
                   (trips w)\<rparr>))))"

section \<open>DispatchService: acceptBooking and rejectBooking\<close>

definition acceptBooking :: "nat \<Rightarrow> nat \<Rightarrow> world \<Rightarrow> (error + booking_request) \<times> world" where
  "acceptBooking requestId driverId w =
     (case accept_query requestId driverId w of
        (Inl e, w1) \<Rightarrow> (Inl e, w1)
      | (Inr rows, w1) \<Rightarrow>
          (case rows of
             [] \<Rightarrow> (Inl (Error ''Booking request not found or invalid driver''), w1)
           | request # _ \<Rightarrow>
               (case bind_trip_query driverId (br_trip_id request) w1 of
                  (Inl e, w2) \<Rightarrow> (Inl e, w2)
                | (Inr _, w2) \<Rightarrow> (Inr request, w2))))"

definition rejectBooking ::
    "nat \<Rightarrow> nat \<Rightarrow> string \<Rightarrow> world \<Rightarrow> (error + booking_request) \<times> world" where
  "rejectBooking requestId driverId reason w =
     (case reject_query requestId driverId reason w of
        (Inl e, w1) \<Rightarrow> (Inl e, w1)
      | (Inr rows, w1) \<Rightarrow>
          (case rows of
             [] \<Rightarrow> (Inl (Error ''Booking request not found''), w1)
           | request # _ \<Rightarrow> (Inr request, w1)))"

text \<open>What a reader of the table sees for one request id.\<close>

definition request_status_of :: "nat \<Rightarrow> world \<Rightarrow> request_status option" where
  "request_status_of requestId w =
     map_option br_status (find (\<lambda>r. br_id r = requestId) (booking_requests w))"

definition trip_of :: "nat \<Rightarrow> world \<Rightarrow> trip option" where
  "trip_of tripId w = find (\<lambda>t. t_id t = tripId) (trips w)"

section \<open>Other parties and the timer\<close>

text \<open>
  While a dispatch waits, drivers call the accept and reject routes and the client may
  cancel the trip. Their calls reach the same store; what they are answered goes to them
  and not to the dispatch flow.
\<close>

datatype action =
  DriverAccepts nat nat
| DriverRejects nat nat string
| ClientCancels nat string

fun perform :: "action \<Rightarrow> world \<Rightarrow> world" where
  "perform (DriverAccepts requestId driverId) w = snd (acceptBooking requestId driverId w)"
| "perform (DriverRejects requestId driverId reason) w =
     snd (rejectBooking requestId driverId reason w)"
| "perform (ClientCancels tripId reason) w = snd (cancelTrip tripId reason w)"

definition run_actions :: "action list \<Rightarrow> world \<Rightarrow> world" where
  "run_actions as w = fold perform as w"

text \<open>
  One firing of the \<open>setInterval\<close> callback: \<open>delay\<close> is the time since the previous
  firing (or since the timer was set), \<open>before_select\<close> the calls of other parties that
  reach the store before the callback's SELECT, \<open>before_update\<close> those that reach it
  between the SELECT and the UPDATE. A callback runs to its end before the next starts.
\<close>

record poll =
  delay :: nat
  before_select :: "action list"
  before_update :: "action list"

definition elapse :: "nat \<Rightarrow> world \<Rightarrow> world" where
  "elapse ms w = w\<lparr>clock := clock w + ms\<rparr>"

section \<open>DispatchService: waiting for the driver\<close>

definition ACCEPT_TIMEOUT :: nat where
  "ACCEPT_TIMEOUT = 60000"

definition MAX_ASSIGNMENT_ATTEMPTS :: nat where
  "MAX_ASSIGNMENT_ATTEMPTS = 3"

text \<open>
  The callback of \<open>setInterval\<close>, once per element of the list of firings. The promise
  resolves with \<open>Some b\<close>; \<open>None\<close> says that the firings given have passed and the promise is
  still unsettled (the interval is still set). A query that throws is caught and logged,
  and the interval stays set.
\<close>

fun checkInterval ::
    "nat \<Rightarrow> nat \<Rightarrow> nat \<Rightarrow> poll list \<Rightarrow> world \<Rightarrow> bool option \<times> poll list \<times> world" where
  "checkInterval requestId timeout startTime [] w = (None, [], w)"
| "checkInterval requestId timeout startTime (p # ps) w =
     (case status_query requestId (run_actions (before_select p) (elapse (delay p) w)) of
        (Inl e, w1) \<Rightarrow> checkInterval requestId timeout startTime ps w1
      | (Inr rows, w1) \<Rightarrow>
          (case rows of
             [] \<Rightarrow> (Some False, ps, w1)
           | request # _ \<Rightarrow>
               if request = accepted then (Some True, ps, w1)
               else if request = rejected then (Some False, ps, w1)
               else if clock w1 - startTime > timeout then
                 (case expire_query requestId (run_actions (before_update p) w1) of
                    (Inl e, w2) \<Rightarrow> checkInterval requestId timeout startTime ps w2
                  | (Inr _, w2) \<Rightarrow> (Some False, ps, w2))
               else checkInterval requestId timeout startTime ps w1))"

definition waitForDriverResponse ::
    "nat \<Rightarrow> nat \<Rightarrow> poll list \<Rightarrow> world \<Rightarrow> bool option \<times> poll list \<times> world" where
  "waitForDriverResponse requestId timeout polls w =
     checkInterval requestId timeout (clock w) polls w"

definition sendAssignmentRequest ::
    "nat \<Rightarrow> nat \<Rightarrow> poll list \<Rightarrow> world \<Rightarrow> bool option \<times> poll list \<times> world" where
  "sendAssignmentRequest tripId driverId polls w =
     (case insert_query tripId driverId w of
        (Inl e, w1) \<Rightarrow> (Some False, polls, w1)
      | (Inr request, w1) \<Rightarrow> waitForDriverResponse (br_id request) ACCEPT_TIMEOUT polls w1)"

section \<open>Driver.getNearestDrivers\<close>

definition radians :: "real \<Rightarrow> real" where
  "radians x = x * pi / 180"

text \<open>
  The distance expression of the query, in its placeholders \<open>$1\<close> and \<open>$2\<close> and the
  driver's columns:
  \<^verbatim>\<open>6371 * acos(cos(radians($2)) * cos(radians(d.current_latitude)) *
  cos(radians(d.current_longitude) - radians($1)) + sin(radians($2)) * sin(radians(d.current_latitude)))\<close>
  over the reals. A NULL coordinate makes it NULL.
\<close>

definition sql_distance :: "real \<Rightarrow> real \<Rightarrow> real \<Rightarrow> real \<Rightarrow> real" where
  "sql_distance p1 p2 lat lng =
     6371 * arccos (cos (radians p2) * cos (radians lat) * cos (radians lng - radians p1)
                    + sin (radians p2) * sin (radians lat))"

definition driver_distance :: "real \<Rightarrow> real \<Rightarrow> driver \<Rightarrow> real option" where
  "driver_distance p1 p2 d =
     (case current_latitude d of
        None \<Rightarrow> None
      | Some lat \<Rightarrow>
          (case current_longitude d of
             None \<Rightarrow> None
           | Some lng \<Rightarrow> Some (sql_distance p1 p2 lat lng)))"

record nearest_row =
  row_driver :: driver
  row_phone :: string
  row_full_name :: string
  row_distance :: real

text \<open>\<open>FROM drivers d JOIN users u ON d.user_id = u.id\<close>\<close>

definition drivers_join_users :: "world \<Rightarrow> (driver \<times> user) list" where
  "drivers_join_users w =
     concat (map (\<lambda>d. map (\<lambda>u. (d, u)) (filter (\<lambda>u. user_id d = u_id u) (users w)))
               (drivers w))"

text \<open>
  \<open>WHERE d.region = $3 AND d.verification_status = 'approved' AND d.is_online = true
  AND u.status = 'active'\<close>
\<close>

definition eligible :: "string \<Rightarrow> driver \<times> user \<Rightarrow> bool" where
  "eligible rg du =
     (region (fst du) = rg \<and> verification_status (fst du) = approved \<and> is_online (fst du)
      \<and> status (snd du) = active)"

definition select_row :: "real \<Rightarrow> real \<Rightarrow> driver \<times> user \<Rightarrow> nearest_row option" where
  "select_row p1 p2 du =
     map_option
       (\<lambda>x. \<lparr>row_driver = fst du, row_phone = phone (snd du),
              row_full_name = full_name (snd du), row_distance = x\<rparr>)
       (driver_distance p1 p2 (fst du))"

text \<open>
  The statement is sent with the parameters \<open>[longitude, latitude, region, maxDistance]\<close>,
  so \<open>$1\<close> is the function's \<open>longitude\<close> and \<open>$2\<close> its \<open>latitude\<close>. HAVING is read as the
  filter on the computed distance that the statement intends (a row whose distance is
  NULL does not pass), ORDER BY as a stable sort.
\<close>

definition getNearestDrivers ::
    "real \<Rightarrow> real \<Rightarrow> string \<Rightarrow> real \<Rightarrow> world \<Rightarrow> (error + nearest_row list) \<times> world" where
  "getNearestDrivers latitude longitude rg maxDistance w =
     (if store_fails w then (Inl StoreError, answered w)
      else
        (Inr (sort_key row_distance
               (filter (\<lambda>r. row_distance r \<le> maxDistance)
                  (List.map_filter (select_row longitude latitude)
                     (filter (eligible rg) (drivers_join_users w))))),
         answered w))"

section \<open>DispatchService.findAndAssignDriver\<close>

record tripData =
  tripId :: nat
  pickupLat :: real
  pickupLng :: real
  trip_region :: string
  maxDistance :: "real option"

record dispatch_reply =
  success :: bool
  message :: string
  driverId :: "nat option"
  driverName :: "string option"
  driverRating :: "real option"
  distance :: "real option"

text \<open>
  An async function's promise: fulfilled with a value, rejected with the error thrown, or
  not settled within the timer firings given.
\<close>

datatype 'a promise = Fulfilled 'a | Thrown error | Unsettled

text \<open>
  The \<open>for\<close> loop over \<open>i < Math.min(availableDrivers.length, MAX_ASSIGNMENT_ATTEMPTS)\<close>.
\<close>

function assign_loop ::
    "nat \<Rightarrow> nearest_row list \<Rightarrow> nat \<Rightarrow> poll list \<Rightarrow> world
      \<Rightarrow> dispatch_reply promise \<times> poll list \<times> world" where
  "assign_loop trip availableDrivers i polls w =
     (if i < min (length availableDrivers) MAX_ASSIGNMENT_ATTEMPTS then
        (case sendAssignmentRequest trip (user_id (row_driver (availableDrivers ! i))) polls w of
           (None, polls', w') \<Rightarrow> (Unsettled, polls', w')
         | (Some assigned, polls', w') \<Rightarrow>
             if assigned then
               (Fulfilled \<lparr>success = True, message = ''Driver assigned successfully'',
                     driverId = Some (user_id (row_driver (availableDrivers ! i))),
                     driverName = Some (row_full_name (availableDrivers ! i)),
                     driverRating = Some (rating (row_driver (availableDrivers ! i))),
                     distance = Some (row_distance (availableDrivers ! i))\<rparr>,
                polls', w')
             else assign_loop trip availableDrivers (Suc i) polls' w')
      else
        (Fulfilled \<lparr>success = False,
              message = ''Unable to find available driver. Please try again.'',
              driverId = None, driverName = None, driverRating = None, distance = None\<rparr>,
         polls, w))"
  by pat_completeness auto
termination
  by (relation "measure (\<lambda>(trip, ds, i, polls, w). min (length ds) MAX_ASSIGNMENT_ATTEMPTS - i)")
     auto

declare assign_loop.simps [simp del]

text \<open>
  \<open>maxDistance = 5\<close> is the default of the destructuring. The call passes
  \<open>(pickupLng, pickupLat, region, maxDistance)\<close> to
  \<open>getNearestDrivers(latitude, longitude, region, maxDistance)\<close>.
\<close>

definition findAndAssignDriver ::
    "tripData \<Rightarrow> poll list \<Rightarrow> world \<Rightarrow> dispatch_reply promise \<times> poll list \<times> world" where
  "findAndAssignDriver td polls w =
     (case getNearestDrivers (pickupLng td) (pickupLat td) (trip_region td)
             (case maxDistance td of None \<Rightarrow> 5 | Some m \<Rightarrow> m) w of
        (Inl e, w1) \<Rightarrow> (Thrown e, polls, w1)
      | (Inr availableDrivers, w1) \<Rightarrow>
          if length availableDrivers = 0 then
            (Fulfilled \<lparr>success = False, message = ''No drivers available in your area'',
                  driverId = None, driverName = None, driverRating = None, distance = None\<rparr>,
             polls, w1)
          else assign_loop (tripId td) availableDrivers 0 polls w1)"

section \<open>Auxiliary notions\<close>

text \<open>
  \<open>evolves old new\<close>: the table \<open>new\<close> has the rows of \<open>old\<close>, in the same order and with
  the same id, trip and driver, and no row of it is pending that was not pending in \<open>old\<close>.
\<close>

definition evolves :: "booking_request list \<Rightarrow> booking_request list \<Rightarrow> bool" where
  "evolves old new =
     list_all2 (\<lambda>a b. br_id b = br_id a \<and> br_trip_id b = br_trip_id a
                    \<and> br_driver_id b = br_driver_id a
                    \<and> (br_status b = pending \<longrightarrow> br_status a = pending)) old new"

text \<open>The pending requests of one trip.\<close>

definition pending_for :: "nat \<Rightarrow> world \<Rightarrow> booking_request list" where
  "pending_for trip w =
     filter (\<lambda>r. br_trip_id r = trip \<and> br_status r = pending) (booking_requests w)"

section \<open>Example worlds\<close>

text \<open>
  Three requests created at time 0 and due at 60000, read at time 90000: the first is
  still pending, the second was rejected by driver 5, the third has expired. Trip 8 was
  cancelled and trip 9 completed, both with driver 6.
\<close>

definition ledger :: world where
  "ledger =
     \<lparr>booking_requests =
        [\<lparr>br_id = 1, br_trip_id = 7, br_driver_id = 5, br_status = pending,
          rejection_reason = None, accepted_at = None, rejected_at = None,
          expires_at = 60000, created_at = 0\<rparr>,
         \<lparr>br_id = 2, br_trip_id = 8, br_driver_id = 5, br_status = rejected,
          rejection_reason = Some ''busy'', accepted_at = None, rejected_at = Some 1000,
          expires_at = 60000, created_at = 0\<rparr>,
         \<lparr>br_id = 3, br_trip_id = 9, br_driver_id = 6, br_status = expired,
          rejection_reason = None, accepted_at = None, rejected_at = None,
          expires_at = 60000, created_at = 0\<rparr>],
      trips =
        [\<lparr>t_id = 7, t_driver_id = None, t_status = trip_pending,
          cancellation_reason = None, updated_at = 0\<rparr>,
         \<lparr>t_id = 8, t_driver_id = Some 6, t_status = cancelled,
          cancellation_reason = Some ''Cancelled by client'', updated_at = 70000\<rparr>,
         \<lparr>t_id = 9, t_driver_id = Some 6, t_status = completed,
          cancellation_reason = None, updated_at = 80000\<rparr>],
      drivers = [], users = [], next_request_id = 4, clock = 90000, queries = 0,
      outage = (\<lambda>n. False)\<rparr>"

text \<open>One request, just offered to driver 5 for trip 7, at time 0.\<close>

definition offer :: world where
  "offer =
     \<lparr>booking_requests =
        [\<lparr>br_id = 1, br_trip_id = 7, br_driver_id = 5, br_status = pending,
          rejection_reason = None, accepted_at = None, rejected_at = None,
          expires_at = 60000, created_at = 0\<rparr>],
      trips =
        [\<lparr>t_id = 7, t_driver_id = None, t_status = trip_pending,
          cancellation_reason = None, updated_at = 0\<rparr>],
      drivers = [], users = [], next_request_id = 2, clock = 0, queries = 0,
      outage = (\<lambda>n. False)\<rparr>"

section \<open>Serial schedules of transitions\<close>

text \<open>
  The two routes by which a driver writes a request's status. \<open>attempt\<close> runs one of them
  for a request and a driver and says whether it succeeded (returned instead of throwing);
  \<open>attempts\<close> runs a list of them one after the other, which is one of the orders in which
  the store can serialise invocations made at the same time.
\<close>

datatype transition = Accept | Reject string

definition succeeded :: "error + 'a \<Rightarrow> bool" where
  "succeeded x = (case x of Inl e \<Rightarrow> False | Inr v \<Rightarrow> True)"

fun attempt :: "nat \<Rightarrow> nat \<Rightarrow> transition \<Rightarrow> world \<Rightarrow> bool \<times> world" where
  "attempt k d Accept w =
     (succeeded (fst (acceptBooking k d w)), snd (acceptBooking k d w))"
| "attempt k d (Reject reason) w =
     (succeeded (fst (rejectBooking k d reason w)), snd (rejectBooking k d reason w))"

fun attempts :: "nat \<Rightarrow> nat \<Rightarrow> transition list \<Rightarrow> world \<Rightarrow> bool list \<times> world" where
  "attempts k d [] w = ([], w)"
| "attempts k d (t # ts) w =
     (fst (attempt k d t w) # fst (attempts k d ts (snd (attempt k d t w))),
      snd (attempts k d ts (snd (attempt k d t w))))"

fun written :: "transition \<Rightarrow> request_status" where
  "written Accept = accepted"
| "written (Reject reason) = rejected"

section \<open>Primary keys\<close>

text \<open>
  \<open>booking_requests.id\<close> is a SERIAL PRIMARY KEY: the ids of the table are distinct and
  below the next value of the sequence.
\<close>

definition keyed :: "world \<Rightarrow> bool" where
  "keyed w =
     (distinct (map br_id (booking_requests w))
      \<and> list_all (\<lambda>r. br_id r < next_request_id w) (booking_requests w))"

section \<open>What a dispatch adds\<close>

text \<open>
  Rows are only ever appended to \<open>booking_requests\<close>: the rows of \<open>w'\<close> behind those that
  \<open>w\<close> had are the requests created between the two.
\<close>

definition created :: "world \<Rightarrow> world \<Rightarrow> booking_request list" where
  "created w w' = drop (length (booking_requests w)) (booking_requests w')"

text \<open>The two replies of \<open>findAndAssignDriver\<close> that report no assignment.\<close>

definition no_drivers_reply :: dispatch_reply where
  "no_drivers_reply =
     \<lparr>success = False, message = ''No drivers available in your area'',
      driverId = None, driverName = None, driverRating = None, distance = None\<rparr>"

definition none_accepted_reply :: dispatch_reply where
  "none_accepted_reply =
     \<lparr>success = False, message = ''Unable to find available driver. Please try again.'',
      driverId = None, driverName = None, driverRating = None, distance = None\<rparr>"

section \<open>Example dispatches\<close>

text \<open>
  A region with three approved drivers standing at the pickup point (0, 0) of trip 7; driver
  8 is offline. No request exists yet.
\<close>

definition city :: world where
  "city =
     \<lparr>booking_requests = [],
      trips =
        [\<lparr>t_id = 7, t_driver_id = None, t_status = trip_pending,
          cancellation_reason = None, updated_at = 0\<rparr>],
      drivers =
        [\<lparr>user_id = 5, region = ''Kigali'', verification_status = approved, is_online = True,
          rating = 5, current_latitude = Some 0, current_longitude = Some 0\<rparr>,
         \<lparr>user_id = 6, region = ''Kigali'', verification_status = approved, is_online = True,
          rating = 4, current_latitude = Some 0, current_longitude = Some 0\<rparr>,
         \<lparr>user_id = 8, region = ''Kigali'', verification_status = approved, is_online = False,
          rating = 5, current_latitude = Some 0, current_longitude = Some 0\<rparr>],
      users =
        [\<lparr>u_id = 5, phone = ''0781'', full_name = ''Ann'', status = active\<rparr>,
         \<lparr>u_id = 6, phone = ''0782'', full_name = ''Bob'', status = active\<rparr>,
         \<lparr>u_id = 8, phone = ''0783'', full_name = ''Cyd'', status = active\<rparr>],
      next_request_id = 1, clock = 0, queries = 0, outage = (\<lambda>n. False)\<rparr>"

definition city_trip :: tripData where
  "city_trip =
     \<lparr>tripId = 7, pickupLat = 0, pickupLng = 0, trip_region = ''Kigali'', maxDistance = None\<rparr>"

text \<open>The rows \<open>getNearestDrivers\<close> returns for it.\<close>

definition city_candidates :: "nearest_row list" where
  "city_candidates =
     [\<lparr>row_driver =
          \<lparr>user_id = 5, region = ''Kigali'', verification_status = approved, is_online = True,
           rating = 5, current_latitude = Some 0, current_longitude = Some 0\<rparr>,
        row_phone = ''0781'', row_full_name = ''Ann'', row_distance = 0\<rparr>,
      \<lparr>row_driver =
          \<lparr>user_id = 6, region = ''Kigali'', verification_status = approved, is_online = True,
           rating = 4, current_latitude = Some 0, current_longitude = Some 0\<rparr>,
        row_phone = ''0782'', row_full_name = ''Bob'', row_distance = 0\<rparr>]"

text \<open>
  Timer firings of a dispatch: driver 5 rejects request 1 before the first poll, driver 6
  accepts request 2 before the second poll of its wait.
\<close>

definition first_rejects_second_accepts :: "poll list" where
  "first_rejects_second_accepts =
     [\<lparr>delay = 1000, before_select = [DriverRejects 1 5 ''busy''], before_update = []\<rparr>,
      \<lparr>delay = 1000, before_select = [], before_update = []\<rparr>,
      \<lparr>delay = 1000, before_select = [DriverAccepts 2 6], before_update = []\<rparr>]"

text \<open>One firing during which nobody acts.\<close>

definition driver_silent :: "poll list" where
  "driver_silent = [\<lparr>delay = 1000, before_select = [], before_update = []\<rparr>]"




section \<open>Properties\<close>

subsection \<open>Rows and keys\<close>

lemma find_update_where:
  "distinct (map key rows) \<Longrightarrow> r \<in> set rows \<Longrightarrow> (\<And>x. key (f x) = key x) \<Longrightarrow>
   find (\<lambda>x. key x = key r) (update_where hit f rows) = Some (if hit r then f r else r)"
  by (induction rows) (auto simp: update_where_def image_iff)

lemma filter_key_distinct:
  "distinct (map key rows) \<Longrightarrow> r \<in> set rows \<Longrightarrow>
   filter (\<lambda>x. key x = key r \<and> P x) rows = (if P r then [r] else [])"
  by (induction rows) (auto simp: image_iff filter_empty_conv)

lemma update_where_miss:
  "(\<And>x. x \<in> set rows \<Longrightarrow> \<not> hit x) \<Longrightarrow> update_where hit f rows = rows"
  by (induction rows) (auto simp: update_where_def)

subsection \<open>acceptBooking\<close>

text \<open>
  C1 (as amended). For a request \<open>r\<close> of the table and a driver \<open>d\<close>, with the store
  answering: \<open>acceptBooking(r.id, d)\<close> sets \<open>r\<close> to accepted whenever \<open>d\<close> is \<open>r\<close>'s driver,
  whatever the status of \<open>r\<close> and whatever the clock says about \<open>r.expiresAt\<close>, and returns
  the accepted row when the trip update is answered too; when \<open>d\<close> is not \<open>r\<close>'s driver it
  throws "Booking request not found or invalid driver" and leaves the table as it was.
\<close>

theorem acceptBooking_checks_driver_only:
  assumes "r \<in> set (booking_requests w)"
    and "distinct (map br_id (booking_requests w))"
    and "\<not> store_fails w"
  shows "(d = br_driver_id r \<longrightarrow>
            request_status_of (br_id r) (snd (acceptBooking (br_id r) d w)) = Some accepted)
       \<and> (d = br_driver_id r \<longrightarrow> \<not> outage w (Suc (queries w)) \<longrightarrow>
            fst (acceptBooking (br_id r) d w)
              = Inr (r\<lparr>br_status := accepted, accepted_at := Some (clock w)\<rparr>))
       \<and> (d \<noteq> br_driver_id r \<longrightarrow>
            fst (acceptBooking (br_id r) d w)
              = Inl (Error ''Booking request not found or invalid driver'')
            \<and> booking_requests (snd (acceptBooking (br_id r) d w)) = booking_requests w)"
proof -
  have flt: "filter (\<lambda>x. br_id x = br_id r \<and> br_driver_id x = d) (booking_requests w)
              = (if br_driver_id r = d then [r] else [])"
    using filter_key_distinct[OF assms(2,1), of "\<lambda>x. br_driver_id x = d"] .
  have st: "\<And>f hit. (\<And>x. br_id (f x) = br_id x) \<Longrightarrow>
      find (\<lambda>x. br_id x = br_id r) (update_where hit f (booking_requests w))
         = Some (if hit r then f r else r)"
    using find_update_where[OF assms(2,1)] by blast
  have miss: "d \<noteq> br_driver_id r \<Longrightarrow>
      update_where (\<lambda>x. br_id x = br_id r \<and> br_driver_id x = d) f (booking_requests w)
        = booking_requests w" for f
    using flt by (intro update_where_miss) (auto simp: filter_empty_conv split: if_splits)
  show ?thesis
    using assms(3) flt miss
    by (auto simp: acceptBooking_def accept_query_def bind_trip_query_def request_status_of_def
        returning_def st store_fails_def answered_def)
qed

text \<open>
  The theorem at the pending request 1 of \<open>ledger\<close>, 30 seconds after its expiry: its
  driver 5 accepts it, driver 4 is turned away.
\<close>

theorem acceptBooking_checks_driver_only_witness:
  "request_status_of 1 (snd (acceptBooking 1 5 ledger)) = Some accepted
   \<and> fst (acceptBooking 1 4 ledger)
       = Inl (Error ''Booking request not found or invalid driver'')
   \<and> booking_requests (snd (acceptBooking 1 4 ledger)) = booking_requests ledger"
  using acceptBooking_checks_driver_only
      [of "\<lparr>br_id = 1, br_trip_id = 7, br_driver_id = 5, br_status = pending,
            rejection_reason = None, accepted_at = None, rejected_at = None,
            expires_at = 60000, created_at = 0\<rparr>" ledger 5]
    acceptBooking_checks_driver_only
      [of "\<lparr>br_id = 1, br_trip_id = 7, br_driver_id = 5, br_status = pending,
            rejection_reason = None, accepted_at = None, rejected_at = None,
            expires_at = 60000, created_at = 0\<rparr>" ledger 4]
  by (simp add: ledger_def store_fails_def)

text \<open>
  C1 as stated fails. In \<open>ledger\<close> the clock (90000) is past the expiry (60000) of the
  pending request 1, and request 3 has expired: \<open>acceptBooking\<close> by the request's driver
  returns the row and the request reads accepted, in both cases.
\<close>

theorem acceptBooking_after_expiry_counterexample:
  "request_status_of 1 ledger = Some pending
   \<and> map_option expires_at (find (\<lambda>r. br_id r = 1) (booking_requests ledger)) = Some 60000
   \<and> clock ledger = 90000
   \<and> fst (acceptBooking 1 5 ledger)
       = Inr \<lparr>br_id = 1, br_trip_id = 7, br_driver_id = 5, br_status = accepted,
          rejection_reason = None, accepted_at = Some 90000, rejected_at = None,
          expires_at = 60000, created_at = 0\<rparr>
   \<and> request_status_of 1 (snd (acceptBooking 1 5 ledger)) = Some accepted
   \<and> request_status_of 3 ledger = Some expired
   \<and> fst (acceptBooking 3 6 ledger)
       = Inr \<lparr>br_id = 3, br_trip_id = 9, br_driver_id = 6, br_status = accepted,
          rejection_reason = None, accepted_at = Some 90000, rejected_at = None,
          expires_at = 60000, created_at = 0\<rparr>
   \<and> request_status_of 3 (snd (acceptBooking 3 6 ledger)) = Some accepted"
  by (simp add: ledger_def acceptBooking_def accept_query_def bind_trip_query_def
      request_status_of_def returning_def update_where_def store_fails_def answered_def)

text \<open>
  C10. When \<open>acceptBooking\<close> is called with the id and the driver of a request \<open>r\<close> and the
  store answers both statements, the trip \<open>t\<close> that \<open>r\<close> refers to gets \<open>r\<close>'s driver and the
  status accepted, whatever driver and status \<open>t\<close> had.
\<close>

theorem acceptBooking_rebinds_trip:
  assumes "r \<in> set (booking_requests w)"
    and "distinct (map br_id (booking_requests w))"
    and "t \<in> set (trips w)"
    and "t_id t = br_trip_id r"
    and "distinct (map t_id (trips w))"
    and "\<not> outage w (queries w)"
    and "\<not> outage w (Suc (queries w))"
  shows "trip_of (br_trip_id r) (snd (acceptBooking (br_id r) (br_driver_id r) w))
           = Some (t\<lparr>t_driver_id := Some (br_driver_id r), t_status := trip_accepted,
                     updated_at := clock w\<rparr>)"
proof -
  have flt: "filter (\<lambda>x. br_id x = br_id r \<and> br_driver_id x = br_driver_id r)
               (booking_requests w) = [r]"
    using filter_key_distinct[OF assms(2,1), of "\<lambda>x. br_driver_id x = br_driver_id r"] by simp
  have fu: "find (\<lambda>x. t_id x = br_trip_id r) (update_where hit f (trips w))
         = Some (if hit t then f t else t)" if "\<And>x. t_id (f x) = t_id x" for f hit
    using find_update_where[OF assms(5,3), of f hit] that assms(4) by simp
  show ?thesis
    using assms(4,6,7) flt
    by (simp add: acceptBooking_def accept_query_def bind_trip_query_def trip_of_def
        returning_def fu store_fails_def answered_def)
qed

text \<open>
  The theorem at request 2 of \<open>ledger\<close>: trip 8, cancelled and held by driver 6, is handed
  to driver 5 and reads accepted.
\<close>

theorem acceptBooking_rebinds_trip_witness:
  "trip_of 8 ledger
     = Some \<lparr>t_id = 8, t_driver_id = Some 6, t_status = cancelled,
             cancellation_reason = Some ''Cancelled by client'', updated_at = 70000\<rparr>
   \<and> trip_of 8 (snd (acceptBooking 2 5 ledger))
     = Some \<lparr>t_id = 8, t_driver_id = Some 5, t_status = trip_accepted,
             cancellation_reason = Some ''Cancelled by client'', updated_at = 90000\<rparr>"
  using acceptBooking_rebinds_trip
      [of "\<lparr>br_id = 2, br_trip_id = 8, br_driver_id = 5, br_status = rejected,
            rejection_reason = Some ''busy'', accepted_at = None, rejected_at = Some 1000,
            expires_at = 60000, created_at = 0\<rparr>" ledger
          "\<lparr>t_id = 8, t_driver_id = Some 6, t_status = cancelled,
            cancellation_reason = Some ''Cancelled by client'', updated_at = 70000\<rparr>"]
  by (simp add: ledger_def trip_of_def)

subsection \<open>No statement makes a request pending\<close>

lemma evolves_refl [simp]: "evolves rows rows"
  by (simp add: evolves_def list_all2_same)

lemma evolves_trans: "evolves a b \<Longrightarrow> evolves b c \<Longrightarrow> evolves a c"
  unfolding evolves_def
  by (erule (1) list_all2_trans[rotated]) auto

lemma evolves_update_where:
  assumes "\<And>x. br_id (f x) = br_id x" "\<And>x. br_trip_id (f x) = br_trip_id x"
    "\<And>x. br_driver_id (f x) = br_driver_id x" "\<And>x. br_status (f x) \<noteq> pending"
  shows "evolves rows (update_where hit f rows)"
  using assms by (induction rows) (auto simp: evolves_def update_where_def)

lemma evolves_ids: "evolves a b \<Longrightarrow> map br_id b = map br_id a"
  unfolding evolves_def by (induction rule: list_all2_induct) auto


lemma evolves_append:
  "evolves a b \<Longrightarrow> evolves c d \<Longrightarrow> evolves (a @ c) (b @ d)"
  by (simp add: evolves_def list_all2_appendI)

lemma evolves_find:
  "evolves old new \<Longrightarrow> find (\<lambda>r. br_id r = k) old = Some a \<Longrightarrow>
   \<exists>b. find (\<lambda>r. br_id r = k) new = Some b \<and> br_id b = k \<and> br_trip_id b = br_trip_id a
        \<and> br_driver_id b = br_driver_id a \<and> (br_status b = pending \<longrightarrow> br_status a = pending)"
  unfolding evolves_def
  by (induction arbitrary: a rule: list_all2_induct) (auto split: if_splits)

lemma evolves_accept_query:
  "evolves (booking_requests w) (booking_requests (snd (accept_query k d w)))"
  by (simp add: accept_query_def answered_def evolves_update_where)

lemma evolves_reject_query:
  "evolves (booking_requests w) (booking_requests (snd (reject_query k d reason w)))"
  by (simp add: reject_query_def answered_def evolves_update_where)

lemma evolves_expire_query:
  "evolves (booking_requests w) (booking_requests (snd (expire_query k w)))"
  by (simp add: expire_query_def answered_def evolves_update_where)

lemma rows_status_query [simp]:
  "booking_requests (snd (status_query k w)) = booking_requests w"
  by (simp add: status_query_def answered_def)

lemma rows_bind_trip_query [simp]:
  "booking_requests (snd (bind_trip_query d t w)) = booking_requests w"
  by (simp add: bind_trip_query_def answered_def)

lemma rows_cancelTrip [simp]:
  "booking_requests (snd (cancelTrip t reason w)) = booking_requests w"
  by (simp add: cancelTrip_def answered_def split: list.splits)

lemma rows_elapse [simp]: "booking_requests (elapse ms w) = booking_requests w"
  by (simp add: elapse_def)

lemma evolves_acceptBooking:
  "evolves (booking_requests w) (booking_requests (snd (acceptBooking k d w)))"
  using evolves_accept_query[of w k d]
  by (auto simp: acceptBooking_def split: prod.splits sum.splits list.splits)
     (metis rows_bind_trip_query snd_conv)+

lemma evolves_rejectBooking:
  "evolves (booking_requests w) (booking_requests (snd (rejectBooking k d reason w)))"
  using evolves_reject_query[of w k d reason]
  by (auto simp: rejectBooking_def split: prod.splits sum.splits list.splits)

lemma evolves_perform: "evolves (booking_requests w) (booking_requests (perform a w))"
  by (cases a) (simp_all add: evolves_acceptBooking evolves_rejectBooking)

lemma evolves_run_actions:
  "evolves (booking_requests w) (booking_requests (run_actions as w))"
  unfolding run_actions_def
proof (induction as arbitrary: w)
  case Nil
  show ?case by simp
next
  case (Cons a as)
  show ?case
    using evolves_trans[OF evolves_perform[of w a] Cons.IH[of "perform a w"]] by simp
qed

lemma evolves_checkInterval:
  "evolves (booking_requests w)
     (booking_requests (snd (snd (checkInterval k timeout start polls w))))"
proof (induction polls arbitrary: w)
  case Nil
  show ?case by simp
next
  case (Cons p ps)
  let ?w0 = "run_actions (before_select p) (elapse (delay p) w)"
  have e0: "evolves (booking_requests w) (booking_requests ?w0)"
    using evolves_run_actions[of "elapse (delay p) w" "before_select p"] by simp
  obtain res w1 where sq: "status_query k ?w0 = (res, w1)" by (cases "status_query k ?w0")
  have r1: "booking_requests w1 = booking_requests ?w0"
    using rows_status_query[of k ?w0] sq by simp
  have e1: "evolves (booking_requests w) (booking_requests w1)" using e0 r1 by simp
  obtain res2 w2 where eq: "expire_query k (run_actions (before_update p) w1) = (res2, w2)"
    by (cases "expire_query k (run_actions (before_update p) w1)")
  have e2: "evolves (booking_requests w) (booking_requests w2)"
    using evolves_trans[OF e1 evolves_trans[OF evolves_run_actions[of w1 "before_update p"]
          evolves_expire_query[of "run_actions (before_update p) w1" k]]] eq by simp
  show ?case
    using sq eq e1 e2 evolves_trans[OF e1 Cons.IH[of w1]] evolves_trans[OF e2 Cons.IH[of w2]]
    by (auto split: sum.splits list.splits)
qed

lemma find_update_where_miss:
  "find P rows = Some r \<Longrightarrow> \<not> hit r \<Longrightarrow> (\<And>x. P (f x) = P x) \<Longrightarrow>
   find P (update_where hit f rows) = Some r"
  by (induction rows) (auto simp: update_where_def split: if_splits)

lemma find_Some_holds: "find P rows = Some r \<Longrightarrow> P r"
  by (induction rows) (auto split: if_splits)

lemma status_kept_accept_query:
  assumes "find (\<lambda>x. br_id x = k) (booking_requests w) = Some r"
    and "k' \<noteq> k \<or> d \<noteq> br_driver_id r"
  shows "find (\<lambda>x. br_id x = k) (booking_requests (snd (accept_query k' d w))) = Some r"
proof -
  have "br_id r = k" using find_Some_holds[OF assms(1)] .
  then have "\<not> (br_id r = k' \<and> br_driver_id r = d)" using assms(2) by auto
  then show ?thesis
    using assms(1) by (simp add: accept_query_def answered_def find_update_where_miss)
qed

lemma status_kept_reject_query:
  assumes "find (\<lambda>x. br_id x = k) (booking_requests w) = Some r"
    and "k' \<noteq> k \<or> d \<noteq> br_driver_id r"
  shows "find (\<lambda>x. br_id x = k) (booking_requests (snd (reject_query k' d reason w))) = Some r"
proof -
  have "br_id r = k" using find_Some_holds[OF assms(1)] .
  then have "\<not> (br_id r = k' \<and> br_driver_id r = d)" using assms(2) by auto
  then show ?thesis
    using assms(1) by (simp add: reject_query_def answered_def find_update_where_miss)
qed

lemma rows_acceptBooking:
  "booking_requests (snd (acceptBooking k d w)) = booking_requests (snd (accept_query k d w))"
  by (auto simp: acceptBooking_def split: prod.splits sum.splits list.splits)
     (metis rows_bind_trip_query snd_conv)+

lemma rows_rejectBooking:
  "booking_requests (snd (rejectBooking k d reason w))
     = booking_requests (snd (reject_query k d reason w))"
  by (auto simp: rejectBooking_def split: prod.splits sum.splits list.splits)

subsection \<open>Competing transitions\<close>

lemma succeeded_Inr [simp]: "succeeded (Inr v)" and succeeded_Inl [simp]: "\<not> succeeded (Inl e)"
  by (simp_all add: succeeded_def)


lemma attempt_matching:
  assumes "r \<in> set (booking_requests w)" "distinct (map br_id (booking_requests w))"
    "\<forall>n. \<not> outage w n"
  shows "fst (attempt (br_id r) (br_driver_id r) t w)"
    and "\<exists>r'. r' \<in> set (booking_requests (snd (attempt (br_id r) (br_driver_id r) t w)))
          \<and> br_id r' = br_id r \<and> br_driver_id r' = br_driver_id r \<and> br_status r' = written t"
    and "map br_id (booking_requests (snd (attempt (br_id r) (br_driver_id r) t w)))
           = map br_id (booking_requests w)"
    and "outage (snd (attempt (br_id r) (br_driver_id r) t w)) = outage w"
proof -
  have flt: "filter (\<lambda>x. br_id x = br_id r \<and> br_driver_id x = br_driver_id r)
               (booking_requests w) = [r]"
    using filter_key_distinct[OF assms(2,1), of "\<lambda>x. br_driver_id x = br_driver_id r"] by simp
  have mem: "(if hit r then f r else r) \<in> set (update_where hit f (booking_requests w))" for hit f
    using assms(1) by (force simp: update_where_def)
  have ids: "map br_id (update_where hit f (booking_requests w)) = map br_id (booking_requests w)"
    if "\<And>x. br_id (f x) = br_id x" for hit and f :: "booking_request \<Rightarrow> booking_request"
    using that by (induction "booking_requests w") (auto simp: update_where_def)
  show "fst (attempt (br_id r) (br_driver_id r) t w)"
    using assms(3) flt
    by (cases t) (simp_all add: acceptBooking_def accept_query_def bind_trip_query_def
        rejectBooking_def reject_query_def expire_query_def returning_def store_fails_def
        answered_def)
  show "\<exists>r'. r' \<in> set (booking_requests (snd (attempt (br_id r) (br_driver_id r) t w)))
          \<and> br_id r' = br_id r \<and> br_driver_id r' = br_driver_id r \<and> br_status r' = written t"
  proof (cases t)
    case Accept
    show ?thesis
      using assms(3) flt
        mem[of "\<lambda>x. br_id x = br_id r \<and> br_driver_id x = br_driver_id r"
               "\<lambda>r. r\<lparr>br_status := accepted, accepted_at := Some (clock w)\<rparr>"]
      by (auto simp: Accept acceptBooking_def accept_query_def bind_trip_query_def
          returning_def store_fails_def answered_def
          intro!: exI[of _ "r\<lparr>br_status := accepted, accepted_at := Some (clock w)\<rparr>"])
  next
    case (Reject reason)
    show ?thesis
      using assms(3) flt
        mem[of "\<lambda>x. br_id x = br_id r \<and> br_driver_id x = br_driver_id r"
               "\<lambda>r. r\<lparr>br_status := rejected, rejection_reason := Some reason,
                        rejected_at := Some (clock w)\<rparr>"]
      by (auto simp: Reject rejectBooking_def reject_query_def
          returning_def store_fails_def answered_def
          intro!: exI[of _ "r\<lparr>br_status := rejected, rejection_reason := Some reason,
                        rejected_at := Some (clock w)\<rparr>"])
  qed
  show "map br_id (booking_requests (snd (attempt (br_id r) (br_driver_id r) t w)))
           = map br_id (booking_requests w)"
    using assms(3) flt
    by (cases t) (simp_all add: acceptBooking_def accept_query_def bind_trip_query_def
        rejectBooking_def reject_query_def expire_query_def returning_def store_fails_def
        answered_def ids)
  show "outage (snd (attempt (br_id r) (br_driver_id r) t w)) = outage w"
    using assms(3) flt
    by (cases t) (simp_all add: acceptBooking_def accept_query_def bind_trip_query_def
        rejectBooking_def reject_query_def expire_query_def returning_def store_fails_def
        answered_def)
qed


lemma find_distinct:
  "distinct (map key rows) \<Longrightarrow> r \<in> set rows \<Longrightarrow> find (\<lambda>x. key x = key r) rows = Some r"
  by (induction rows) (auto simp: image_iff)

text \<open>
  C3 (as amended). Take a request \<open>r\<close> of the table (pending or not), a store that always
  answers, and any list of calls of \<open>acceptBooking\<close> and \<open>rejectBooking\<close> by \<open>r\<close>'s driver on
  \<open>r\<close> that the store serialises in the order of the list. Every one of them succeeds: none
  is turned away because another came first. The request reads as the last of them wrote
  it.
\<close>

theorem every_matching_transition_succeeds:
  assumes "r \<in> set (booking_requests w)"
    and "distinct (map br_id (booking_requests w))"
    and "\<forall>n. \<not> outage w n"
  shows "fst (attempts (br_id r) (br_driver_id r) ts w) = replicate (length ts) True
       \<and> (ts \<noteq> [] \<longrightarrow>
            request_status_of (br_id r) (snd (attempts (br_id r) (br_driver_id r) ts w))
              = Some (written (last ts)))"
  using assms
proof (induction ts arbitrary: r w)
  case Nil
  show ?case by simp
next
  case (Cons t ts)
  let ?w = "snd (attempt (br_id r) (br_driver_id r) t w)"
  note step = attempt_matching[OF Cons.prems, of t]
  obtain r' where r': "r' \<in> set (booking_requests ?w)" "br_id r' = br_id r"
      "br_driver_id r' = br_driver_id r" "br_status r' = written t"
    using step(2) by blast
  have d': "distinct (map br_id (booking_requests ?w))" using step(3) Cons.prems(2) by simp
  have o': "\<forall>n. \<not> outage ?w n" using step(4) Cons.prems(3) by simp
  have ih: "fst (attempts (br_id r) (br_driver_id r) ts ?w) = replicate (length ts) True
       \<and> (ts \<noteq> [] \<longrightarrow>
            request_status_of (br_id r) (snd (attempts (br_id r) (br_driver_id r) ts ?w))
              = Some (written (last ts)))"
    using Cons.IH[OF r'(1) d' o'] r'(2,3) by simp
  have now: "request_status_of (br_id r) ?w = Some (written t)"
    using find_distinct[OF d' r'(1)] r'(2,4) by (simp add: request_status_of_def)
  show ?case using step(1) ih now by simp
qed

text \<open>The theorem at the pending request of \<open>offer\<close>, for four transitions in a row.\<close>

theorem every_matching_transition_succeeds_witness:
  "fst (attempts 1 5 [Accept, Reject ''no'', Accept, Reject ''late''] offer)
     = [True, True, True, True]
   \<and> request_status_of 1 (snd (attempts 1 5 [Accept, Reject ''no'', Accept, Reject ''late''] offer))
       = Some rejected"
  using every_matching_transition_succeeds
      [of "\<lparr>br_id = 1, br_trip_id = 7, br_driver_id = 5, br_status = pending,
            rejection_reason = None, accepted_at = None, rejected_at = None,
            expires_at = 60000, created_at = 0\<rparr>" offer
          "[Accept, Reject ''no'', Accept, Reject ''late'']"]
  by (simp add: offer_def)

text \<open>
  C3 as stated fails. The request of \<open>offer\<close> is pending; the poll at 61000 reads it as
  pending and is past the timeout; before its expiry update reaches the store, driver 5
  accepts. The accept succeeds and binds trip 7 to driver 5; the expiry update succeeds
  too, the request reads expired and the wait resolves to false. Also a reject after an
  accept succeeds.
\<close>

theorem accept_and_expiry_both_succeed_counterexample:
  "request_status_of 1 offer = Some pending
   \<and> succeeded (fst (acceptBooking 1 5 (snd (status_query 1 (elapse 61000 offer)))))
   \<and> fst (waitForDriverResponse 1 ACCEPT_TIMEOUT
            [\<lparr>delay = 61000, before_select = [], before_update = [DriverAccepts 1 5]\<rparr>] offer)
       = Some False
   \<and> request_status_of 1 (snd (snd (waitForDriverResponse 1 ACCEPT_TIMEOUT
            [\<lparr>delay = 61000, before_select = [], before_update = [DriverAccepts 1 5]\<rparr>] offer)))
       = Some expired
   \<and> map_option t_driver_id (trip_of 7 (snd (snd (waitForDriverResponse 1 ACCEPT_TIMEOUT
            [\<lparr>delay = 61000, before_select = [], before_update = [DriverAccepts 1 5]\<rparr>] offer))))
       = Some (Some 5)
   \<and> map_option t_status (trip_of 7 (snd (snd (waitForDriverResponse 1 ACCEPT_TIMEOUT
            [\<lparr>delay = 61000, before_select = [], before_update = [DriverAccepts 1 5]\<rparr>] offer))))
       = Some trip_accepted
   \<and> succeeded (fst (rejectBooking 1 5 ''no'' (snd (acceptBooking 1 5 offer))))"
  by (simp add: offer_def waitForDriverResponse_def ACCEPT_TIMEOUT_def status_query_def
      expire_query_def run_actions_def elapse_def trip_of_def acceptBooking_def accept_query_def
      bind_trip_query_def rejectBooking_def reject_query_def request_status_of_def returning_def
      update_where_def store_fails_def answered_def)

subsection \<open>What no statement touches\<close>

lemma fixed_accept_query [simp]:
  "outage (snd (accept_query k d w)) = outage w"
  "next_request_id (snd (accept_query k d w)) = next_request_id w"
  "clock (snd (accept_query k d w)) = clock w"
  by (simp_all add: accept_query_def answered_def)

lemma fixed_reject_query [simp]:
  "outage (snd (reject_query k d reason w)) = outage w"
  "next_request_id (snd (reject_query k d reason w)) = next_request_id w"
  "clock (snd (reject_query k d reason w)) = clock w"
  by (simp_all add: reject_query_def answered_def)

lemma fixed_expire_query [simp]:
  "outage (snd (expire_query k w)) = outage w"
  "next_request_id (snd (expire_query k w)) = next_request_id w"
  "clock (snd (expire_query k w)) = clock w"
  by (simp_all add: expire_query_def answered_def)

lemma fixed_status_query [simp]:
  "outage (snd (status_query k w)) = outage w"
  "next_request_id (snd (status_query k w)) = next_request_id w"
  "clock (snd (status_query k w)) = clock w"
  by (simp_all add: status_query_def answered_def)

lemma fixed_bind_trip_query [simp]:
  "outage (snd (bind_trip_query d t w)) = outage w"
  "next_request_id (snd (bind_trip_query d t w)) = next_request_id w"
  "clock (snd (bind_trip_query d t w)) = clock w"
  by (simp_all add: bind_trip_query_def answered_def)

lemma fixed_cancelTrip [simp]:
  "outage (snd (cancelTrip t reason w)) = outage w"
  "next_request_id (snd (cancelTrip t reason w)) = next_request_id w"
  "clock (snd (cancelTrip t reason w)) = clock w"
  by (simp_all add: cancelTrip_def answered_def split: list.splits)

lemma snd_case_sum_pair:
  "snd (case p of (Inl e, w2) \<Rightarrow> (Inl e, w2) | (Inr u, w2) \<Rightarrow> (Inr c, w2)) = snd p"
  by (cases p; cases "fst p") auto

lemma acceptBooking_world:
  "snd (acceptBooking k d w) = snd (accept_query k d w)
   \<or> (\<exists>t. snd (acceptBooking k d w) = snd (bind_trip_query d t (snd (accept_query k d w))))"
proof (cases "accept_query k d w")
  case (Pair res w1)
  show ?thesis
  proof (cases res)
    case (Inl e)
    then show ?thesis using Pair by (simp add: acceptBooking_def)
  next
    case (Inr rows)
    show ?thesis
    proof (cases rows)
      case Nil
      then show ?thesis using Pair Inr by (simp add: acceptBooking_def)
    next
      case (Cons request rest)
      have "snd (acceptBooking k d w) = snd (bind_trip_query d (br_trip_id request) w1)"
        using Pair Inr Cons by (simp add: acceptBooking_def snd_case_sum_pair)
      then show ?thesis using Pair by auto
    qed
  qed
qed

lemma rejectBooking_world:
  "snd (rejectBooking k d reason w) = snd (reject_query k d reason w)"
  by (cases "reject_query k d reason w")
     (auto simp: rejectBooking_def split: sum.splits list.splits)

lemma fixed_acceptBooking [simp]:
  "outage (snd (acceptBooking k d w)) = outage w"
  "next_request_id (snd (acceptBooking k d w)) = next_request_id w"
  "clock (snd (acceptBooking k d w)) = clock w"
  using acceptBooking_world[of k d w] by (elim disjE exE; simp)+

lemma fixed_rejectBooking [simp]:
  "outage (snd (rejectBooking k d reason w)) = outage w"
  "next_request_id (snd (rejectBooking k d reason w)) = next_request_id w"
  "clock (snd (rejectBooking k d reason w)) = clock w"
  by (simp_all add: rejectBooking_world)

lemma fixed_perform [simp]:
  "outage (perform a w) = outage w"
  "next_request_id (perform a w) = next_request_id w"
  "clock (perform a w) = clock w"
  by (cases a; simp)+

lemma fixed_run_actions [simp]:
  "outage (run_actions as w) = outage w"
  "next_request_id (run_actions as w) = next_request_id w"
  "clock (run_actions as w) = clock w"
  unfolding run_actions_def by (induction as arbitrary: w, simp_all)+

lemma fixed_elapse [simp]:
  "outage (elapse ms w) = outage w"
  "next_request_id (elapse ms w) = next_request_id w"
  "clock (elapse ms w) = clock w + ms"
  by (simp_all add: elapse_def)

lemma checkInterval_Cons:
  "checkInterval k timeout start (p # ps) w
     = checkInterval k timeout start ps
         (snd (status_query k (run_actions (before_select p) (elapse (delay p) w))))
   \<or> checkInterval k timeout start (p # ps) w
     = checkInterval k timeout start ps
         (snd (expire_query k (run_actions (before_update p)
            (snd (status_query k (run_actions (before_select p) (elapse (delay p) w)))))))
   \<or> (\<exists>b. checkInterval k timeout start (p # ps) w
          = (Some b, ps, snd (status_query k (run_actions (before_select p) (elapse (delay p) w)))))
   \<or> checkInterval k timeout start (p # ps) w
     = (Some False, ps,
        snd (expire_query k (run_actions (before_update p)
            (snd (status_query k (run_actions (before_select p) (elapse (delay p) w)))))))"
proof -
  let ?w0 = "run_actions (before_select p) (elapse (delay p) w)"
  obtain res w1 where sq: "status_query k ?w0 = (res, w1)" by (cases "status_query k ?w0")
  obtain res2 w2 where eq: "expire_query k (run_actions (before_update p) w1) = (res2, w2)"
    by (cases "expire_query k (run_actions (before_update p) w1)")
  show ?thesis
  proof (cases res)
    case (Inl e)
    then show ?thesis using sq by simp
  next
    case (Inr rows)
    show ?thesis
    proof (cases rows)
      case Nil
      then show ?thesis using sq Inr by auto
    next
      case (Cons st sts)
      show ?thesis
      proof (cases res2)
        case (Inl e)
        then show ?thesis using sq \<open>res = Inr rows\<close> Cons eq by auto
      next
        case (Inr u)
        then show ?thesis using sq \<open>res = Inr rows\<close> Cons eq by auto
      qed
    qed
  qed
qed

lemma checkInterval_invariant:
  assumes "P w"
    and "\<And>w (p :: poll). P w \<Longrightarrow>
           P (snd (status_query k (run_actions (before_select p) (elapse (delay p) w))))"
    and "\<And>w (p :: poll). P w \<Longrightarrow>
           P (snd (expire_query k (run_actions (before_update p) w)))"
  shows "P (snd (snd (checkInterval k timeout start polls w)))"
  using assms(1)
proof (induction polls arbitrary: w)
  case Nil
  then show ?case by simp
next
  case (Cons p ps)
  let ?w1 = "snd (status_query k (run_actions (before_select p) (elapse (delay p) w)))"
  let ?w2 = "snd (expire_query k (run_actions (before_update p) ?w1))"
  have p1: "P ?w1" by (rule assms(2)[OF Cons.prems])
  have p2: "P ?w2" by (rule assms(3)[OF p1])
  from checkInterval_Cons[of k timeout start p ps w]
  show ?case
  proof (elim disjE exE)
    assume "checkInterval k timeout start (p # ps) w = checkInterval k timeout start ps ?w1"
    then show ?thesis using Cons.IH[OF p1] by simp
  next
    assume "checkInterval k timeout start (p # ps) w = checkInterval k timeout start ps ?w2"
    then show ?thesis using Cons.IH[OF p2] by simp
  next
    fix b
    assume "checkInterval k timeout start (p # ps) w = (Some b, ps, ?w1)"
    then show ?thesis using p1 by simp
  next
    assume "checkInterval k timeout start (p # ps) w = (Some False, ps, ?w2)"
    then show ?thesis using p2 by simp
  qed
qed

lemma fixed_checkInterval:
  "outage (snd (snd (checkInterval k timeout start polls w))) = outage w
   \<and> next_request_id (snd (snd (checkInterval k timeout start polls w))) = next_request_id w"
  by (rule checkInterval_invariant
        [of "\<lambda>v. outage v = outage w \<and> next_request_id v = next_request_id w"]) simp_all

subsection \<open>A settled wait\<close>

lemma status_query_Inr:
  "status_query k w = (Inr rows, w1) \<Longrightarrow>
   rows = map br_status (filter (\<lambda>r. br_id r = k) (booking_requests w))
   \<and> booking_requests w1 = booking_requests w"
  by (auto simp: status_query_def answered_def split: if_splits)

lemma expire_query_Inr:
  "expire_query k w = (Inr u, w2) \<Longrightarrow>
   booking_requests w2
     = update_where (\<lambda>r. br_id r = k) (\<lambda>r. r\<lparr>br_status := expired\<rparr>) (booking_requests w)"
  by (auto simp: expire_query_def answered_def split: if_splits)

lemma filter_key_one:
  "distinct (map key rows) \<Longrightarrow> filter (\<lambda>x. key x = k) rows = y # ys \<Longrightarrow>
   ys = [] \<and> (\<forall>r \<in> set rows. key r = k \<longrightarrow> r = y)"
proof (induction rows)
  case Nil
  then show ?case by simp
next
  case (Cons a rows)
  show ?case
  proof (cases "key a = k")
    case True
    then have "filter (\<lambda>x. key x = k) rows = []"
      using Cons.prems(1) by (auto simp: filter_empty_conv image_iff)
    then show ?thesis using Cons.prems True by (auto simp: filter_empty_conv)
  next
    case False
    then show ?thesis using Cons by auto
  qed
qed

lemma expired_after_update:
  assumes "r \<in> set (update_where (\<lambda>r. br_id r = k) (\<lambda>r. r\<lparr>br_status := expired\<rparr>) rows)"
    and "br_id r = k"
  shows "br_status r = expired"
proof -
  have "r \<in> (\<lambda>x. if br_id x = k then x\<lparr>br_status := expired\<rparr> else x) ` set rows"
    using assms(1) unfolding update_where_def set_map .
  then obtain x where x: "r = (if br_id x = k then x\<lparr>br_status := expired\<rparr> else x)"
    by (rule imageE)
  show ?thesis using x assms(2) by (cases "br_id x = k") simp_all
qed

lemma checkInterval_settled:
  assumes "distinct (map br_id (booking_requests w))"
    and "checkInterval k timeout start polls w = (Some b, ps', w')"
  shows "\<forall>r \<in> set (booking_requests w'). br_id r = k \<longrightarrow>
           (if b then br_status r = accepted else br_status r = rejected \<or> br_status r = expired)"
  using assms
proof (induction polls arbitrary: w)
  case Nil
  then show ?case by simp
next
  case (Cons p ps)
  note IH = Cons.IH and run = Cons.prems(2)
  let ?w0 = "run_actions (before_select p) (elapse (delay p) w)"
  obtain res w1 where sq: "status_query k ?w0 = (res, w1)" by (cases "status_query k ?w0")
  have r1: "booking_requests w1 = booking_requests ?w0"
    using rows_status_query[of k ?w0] sq by simp
  have d1: "distinct (map br_id (booking_requests w1))"
    using evolves_ids[OF evolves_run_actions[of "elapse (delay p) w" "before_select p"]]
      Cons.prems(1) r1 by simp
  obtain res2 w2 where eq: "expire_query k (run_actions (before_update p) w1) = (res2, w2)"
    by (cases "expire_query k (run_actions (before_update p) w1)")
  have d2: "distinct (map br_id (booking_requests w2))"
    using evolves_ids[OF evolves_trans[OF evolves_run_actions[of w1 "before_update p"]
          evolves_expire_query[of "run_actions (before_update p) w1" k]]] eq d1 by simp
  show ?case
  proof (cases res)
    case (Inl e)
    have "checkInterval k timeout start ps w1 = (Some b, ps', w')"
      using run sq Inl by simp
    then show ?thesis by (rule IH[OF d1])
  next
    case (Inr rows)
    note sel = status_query_Inr[OF sq[unfolded Inr]]
    show ?thesis
    proof (cases rows)
      case Nil
      have none: "filter (\<lambda>r. br_id r = k) (booking_requests w1) = []"
        using sel r1 Nil by simp
      have "w' = w1" using run sq Inr Nil by simp
      then show ?thesis using none by (simp add: filter_empty_conv)
    next
      case rows: (Cons st sts)
      obtain y ys where f: "filter (\<lambda>r. br_id r = k) (booking_requests w1) = y # ys"
          and st: "st = br_status y"
        using sel r1 rows by (cases "filter (\<lambda>r. br_id r = k) (booking_requests w1)") auto
      have all_st: "\<forall>r \<in> set (booking_requests w1). br_id r = k \<longrightarrow> br_status r = st"
        using filter_key_one[OF d1 f] st by blast
      consider (acc) "st = accepted" | (rej) "st = rejected"
        | (late) "st \<noteq> accepted" "st \<noteq> rejected" "clock w1 - start > timeout"
        | (wait) "st \<noteq> accepted" "st \<noteq> rejected" "\<not> clock w1 - start > timeout"
        by blast
      then show ?thesis
      proof cases
        case acc
        have "b \<and> w' = w1" using run sq Inr rows acc by simp
        then show ?thesis using all_st acc by simp
      next
        case rej
        have "\<not> b \<and> w' = w1" using run sq Inr rows rej by simp
        then show ?thesis using all_st rej by simp
      next
        case late
        show ?thesis
        proof (cases res2)
          case (Inl e)
          have "checkInterval k timeout start ps w2 = (Some b, ps', w')"
            using run sq Inr rows late eq Inl by simp
          then show ?thesis by (rule IH[OF d2])
        next
          case u: (Inr u)
          have w2: "booking_requests w2 = update_where (\<lambda>r. br_id r = k)
                  (\<lambda>r. r\<lparr>br_status := expired\<rparr>)
                  (booking_requests (run_actions (before_update p) w1))"
            using expire_query_Inr eq u by simp
          have ex: "\<forall>r \<in> set (booking_requests w2). br_id r = k \<longrightarrow> br_status r = expired"
            unfolding w2 using expired_after_update by blast
          have "\<not> b \<and> w' = w2" using run sq Inr rows late eq u by simp
          then show ?thesis using ex by simp
        qed
      next
        case wait
        have "checkInterval k timeout start ps w1 = (Some b, ps', w')"
          using run sq Inr rows wait by simp
        then show ?thesis by (rule IH[OF d1])
      qed
    qed
  qed
qed

subsection \<open>The wait and the store\<close>

lemma checkInterval_store_down:
  "outage w = (\<lambda>n. True) \<Longrightarrow> fst (checkInterval k timeout start polls w) = None"
proof (induction polls arbitrary: w)
  case Nil
  show ?case by simp
next
  case (Cons p ps)
  let ?w0 = "run_actions (before_select p) (elapse (delay p) w)"
  have down: "store_fails ?w0" using Cons.prems by (simp add: store_fails_def)
  have sq: "status_query k ?w0 = (Inl StoreError, answered ?w0)"
    using down by (simp add: status_query_def)
  have "outage (answered ?w0) = (\<lambda>n. True)" using Cons.prems by (simp add: answered_def)
  then have "fst (checkInterval k timeout start ps (answered ?w0)) = None" by (rule Cons.IH)
  then show ?case using sq by simp
qed

text \<open>
  C7. The claim fails on the code, which is at fault. With a store that throws on every
  query, \<open>waitForDriverResponse\<close> is not settled after any number of firings of its
  timer: the callback's \<open>catch\<close> logs the error and returns before the deadline check, which
  sits after the SELECT inside the \<open>try\<close>.
\<close>

theorem wait_never_settles_when_store_down:
  "fst (waitForDriverResponse k timeout polls (w\<lparr>outage := \<lambda>n. True\<rparr>)) = None"
  unfolding waitForDriverResponse_def by (rule checkInterval_store_down) simp

lemma checkInterval_polls: "suffix (fst (snd (checkInterval k timeout start polls w))) polls"
proof (induction polls arbitrary: w)
  case Nil
  show ?case by simp
next
  case (Cons p ps)
  let ?w1 = "snd (status_query k (run_actions (before_select p) (elapse (delay p) w)))"
  let ?w2 = "snd (expire_query k (run_actions (before_update p) ?w1))"
  from checkInterval_Cons[of k timeout start p ps w]
  show ?case
  proof (elim disjE exE)
    assume "checkInterval k timeout start (p # ps) w = checkInterval k timeout start ps ?w1"
    then show ?thesis using Cons.IH[of ?w1] by (simp add: suffix_Cons)
  next
    assume "checkInterval k timeout start (p # ps) w = checkInterval k timeout start ps ?w2"
    then show ?thesis using Cons.IH[of ?w2] by (simp add: suffix_Cons)
  next
    fix b
    assume "checkInterval k timeout start (p # ps) w = (Some b, ps, ?w1)"
    then show ?thesis by (simp add: suffix_Cons)
  next
    assume "checkInterval k timeout start (p # ps) w = (Some False, ps, ?w2)"
    then show ?thesis by (simp add: suffix_Cons)
  qed
qed


subsection \<open>One attempt\<close>

lemma keyed_ids:
  "keyed w \<longleftrightarrow> distinct (map br_id (booking_requests w))
     \<and> (\<forall>i \<in> set (map br_id (booking_requests w)). i < next_request_id w)"
  by (auto simp: keyed_def list_all_iff)

lemma keyed_evolves:
  assumes "keyed w" and "evolves (booking_requests w) (booking_requests w')"
    and "next_request_id w' = next_request_id w"
  shows "keyed w'"
  using assms(1) unfolding keyed_ids evolves_ids[OF assms(2)] assms(3) .

lemma insert_query_down:
  "store_fails w \<Longrightarrow> insert_query t d w = (Inl StoreError, answered w)"
  by (simp add: insert_query_def)

lemma insert_query_up:
  assumes "\<not> store_fails w"
  shows "\<exists>x w1. insert_query t d w = (Inr x, w1)
           \<and> booking_requests w1 = booking_requests w @ [x]
           \<and> br_id x = next_request_id w \<and> br_trip_id x = t \<and> br_driver_id x = d
           \<and> br_status x = pending
           \<and> next_request_id w1 = Suc (next_request_id w)
           \<and> clock w1 = clock w \<and> outage w1 = outage w"
  using assms by (simp add: insert_query_def answered_def)

lemma keyed_insert:
  assumes "keyed w" and "booking_requests w1 = booking_requests w @ [x]"
    and "br_id x = next_request_id w" and "next_request_id w1 = Suc (next_request_id w)"
  shows "keyed w1"
proof -
  have lt: "\<forall>r \<in> set (booking_requests w). br_id r < next_request_id w"
    using assms(1) by (simp add: keyed_def list_all_iff)
  then have "br_id x \<notin> br_id ` set (booking_requests w)" using assms(3) by auto
  moreover have "\<forall>r \<in> set (booking_requests w). br_id r < Suc (next_request_id w)"
    using lt by auto
  ultimately show ?thesis using assms by (simp add: keyed_def list_all_iff)
qed

lemma evolves_snoc:
  assumes "evolves (old @ [x]) new"
  shows "\<exists>old' x'. new = old' @ [x'] \<and> evolves old old' \<and> br_id x' = br_id x
           \<and> br_trip_id x' = br_trip_id x \<and> br_driver_id x' = br_driver_id x
           \<and> (br_status x' = pending \<longrightarrow> br_status x = pending)"
proof -
  let ?R = "\<lambda>a b. br_id b = br_id a \<and> br_trip_id b = br_trip_id a
                    \<and> br_driver_id b = br_driver_id a
                    \<and> (br_status b = pending \<longrightarrow> br_status a = pending)"
  from assms obtain us vs where new: "new = us @ vs" and us: "list_all2 ?R old us"
      and vs: "list_all2 ?R [x] vs"
    unfolding evolves_def list_all2_append1 by blast
  from vs obtain x' where x': "vs = [x']" "?R x x'"
    by (auto simp: list_all2_Cons1)
  show ?thesis using new us x' unfolding evolves_def by blast
qed

text \<open>
  What one call of \<open>sendAssignmentRequest\<close> leaves: the old rows, evolved, and behind them
  either nothing (the INSERT threw, the attempt counts as not accepted) or the one new row.
\<close>

lemma sendAssignmentRequest_summary:
  assumes "keyed w"
    and "sendAssignmentRequest t d polls w = (res, ps', w')"
  shows "keyed w' \<and> outage w' = outage w \<and> suffix ps' polls
       \<and> (\<exists>old' new. booking_requests w' = old' @ new \<and> evolves (booking_requests w) old'
            \<and> (store_fails w \<and> new = [] \<and> res = Some False \<and> ps' = polls
               \<or> \<not> store_fails w \<and> (\<exists>x. new = [x] \<and> br_trip_id x = t \<and> br_driver_id x = d
                    \<and> (res = None \<or> br_status x \<noteq> pending)
                    \<and> (res = Some True \<longrightarrow> br_status x = accepted))))"
proof (cases "store_fails w")
  case True
  have r: "res = Some False" "ps' = polls" "w' = answered w"
    using assms(2) insert_query_down[OF True, of t d] by (simp_all add: sendAssignmentRequest_def)
  have rows: "booking_requests w' = booking_requests w" using r by (simp add: answered_def)
  have "keyed w'" using assms(1) r by (simp add: keyed_def answered_def)
  moreover have "outage w' = outage w" using r by (simp add: answered_def)
  moreover have "booking_requests w' = booking_requests w @ []" using rows by simp
  ultimately show ?thesis using True r(1,2) evolves_refl by blast
next
  case False
  from insert_query_up[OF False, of t d] obtain x w1 where
    ins: "insert_query t d w = (Inr x, w1)" and
    rows1: "booking_requests w1 = booking_requests w @ [x]" and
    x: "br_id x = next_request_id w" "br_trip_id x = t" "br_driver_id x = d" and
    n1: "next_request_id w1 = Suc (next_request_id w)" and
    o1: "outage w1 = outage w"
    by blast
  have k1: "keyed w1" by (rule keyed_insert[OF assms(1) rows1 x(1) n1])
  have run: "checkInterval (br_id x) ACCEPT_TIMEOUT (clock w1) polls w1 = (res, ps', w')"
    using assms(2) ins by (simp add: sendAssignmentRequest_def waitForDriverResponse_def)
  have w': "w' = snd (snd (checkInterval (br_id x) ACCEPT_TIMEOUT (clock w1) polls w1))"
    and ps': "ps' = fst (snd (checkInterval (br_id x) ACCEPT_TIMEOUT (clock w1) polls w1))"
    using run by simp_all
  have ev: "evolves (booking_requests w1) (booking_requests w')"
    unfolding w' by (rule evolves_checkInterval)
  have fx: "outage w' = outage w1" "next_request_id w' = next_request_id w1"
    unfolding w' using fixed_checkInterval by blast+
  have k': "keyed w'" by (rule keyed_evolves[OF k1 ev fx(2)])
  have suf: "suffix ps' polls" unfolding ps' by (rule checkInterval_polls)
  from evolves_snoc[OF ev[unfolded rows1]] obtain old' x' where
    new: "booking_requests w' = old' @ [x']" and old': "evolves (booking_requests w) old'" and
    x': "br_id x' = br_id x" "br_trip_id x' = t" "br_driver_id x' = d"
    using x by auto
  have settled: "if b then br_status x' = accepted
                 else br_status x' = rejected \<or> br_status x' = expired" if "res = Some b" for b
  proof -
    have d1: "distinct (map br_id (booking_requests w1))" using k1 by (simp add: keyed_def)
    have "\<forall>r \<in> set (booking_requests w'). br_id r = br_id x \<longrightarrow>
           (if b then br_status r = accepted else br_status r = rejected \<or> br_status r = expired)"
      by (rule checkInterval_settled[OF d1 run[unfolded that]])
    then show ?thesis using new x'(1) by simp
  qed
  have s1: "res = None \<or> br_status x' \<noteq> pending"
  proof (cases res)
    case None
    then show ?thesis by simp
  next
    case (Some b)
    then show ?thesis using settled[OF Some] by (cases b) auto
  qed
  have s2: "res = Some True \<longrightarrow> br_status x' = accepted" using settled[of True] by simp
  show ?thesis using k' fx(1) o1 suf new old' x'(2,3) s1 s2 False by auto
qed

subsection \<open>The loop over the candidates\<close>

lemma assign_loop_done:
  "\<not> i < min (length ds) MAX_ASSIGNMENT_ATTEMPTS \<Longrightarrow>
   assign_loop trip ds i polls w = (Fulfilled none_accepted_reply, polls, w)"
  by (subst assign_loop.simps) (auto simp: none_accepted_reply_def)

lemma assign_loop_unsettled:
  "i < min (length ds) MAX_ASSIGNMENT_ATTEMPTS \<Longrightarrow>
   sendAssignmentRequest trip (user_id (row_driver (ds ! i))) polls w = (None, ps', w') \<Longrightarrow>
   assign_loop trip ds i polls w = (Unsettled, ps', w')"
  by (subst assign_loop.simps) simp

lemma assign_loop_accepted:
  "i < min (length ds) MAX_ASSIGNMENT_ATTEMPTS \<Longrightarrow>
   sendAssignmentRequest trip (user_id (row_driver (ds ! i))) polls w = (Some True, ps', w') \<Longrightarrow>
   assign_loop trip ds i polls w
     = (Fulfilled \<lparr>success = True, message = ''Driver assigned successfully'',
                  driverId = Some (user_id (row_driver (ds ! i))),
                  driverName = Some (row_full_name (ds ! i)),
                  driverRating = Some (rating (row_driver (ds ! i))),
                  distance = Some (row_distance (ds ! i))\<rparr>, ps', w')"
  by (subst assign_loop.simps) simp

lemma assign_loop_next:
  "i < min (length ds) MAX_ASSIGNMENT_ATTEMPTS \<Longrightarrow>
   sendAssignmentRequest trip (user_id (row_driver (ds ! i))) polls w = (Some False, ps', w') \<Longrightarrow>
   assign_loop trip ds i polls w = assign_loop trip ds (Suc i) ps' w'"
  by (subst assign_loop.simps) simp



lemma evolves_Nil: "evolves [] b \<Longrightarrow> b = []"
  by (simp add: evolves_def)

lemma evolves_no_pending:
  assumes "evolves old new"
    and "filter (\<lambda>r. br_trip_id r = t \<and> br_status r = pending) old = []"
  shows "filter (\<lambda>r. br_trip_id r = t \<and> br_status r = pending) new = []"
  using assms unfolding evolves_def
  by (induction rule: list_all2_induct) (auto split: if_splits)

lemma sendAssignmentRequest_pending:
  assumes "keyed w" and "pending_for t w = []"
    and "sendAssignmentRequest t d polls w = (res, ps', w')"
  shows "keyed w' \<and> length (pending_for t w') \<le> 1 \<and> (res \<noteq> None \<longrightarrow> pending_for t w' = [])"
proof -
  from sendAssignmentRequest_summary[OF assms(1,3)] obtain old' new where
    k: "keyed w'" and rows: "booking_requests w' = old' @ new"
    and old': "evolves (booking_requests w) old'"
    and new: "new = [] \<or> (\<exists>x. new = [x] \<and> (res = None \<or> br_status x \<noteq> pending))"
    by blast
  have p0: "filter (\<lambda>r. br_trip_id r = t \<and> br_status r = pending) old' = []"
    by (rule evolves_no_pending[OF old' assms(2)[unfolded pending_for_def]])
  have pf: "pending_for t w' = filter (\<lambda>r. br_trip_id r = t \<and> br_status r = pending) new"
    using rows p0 by (simp add: pending_for_def)
  from new show ?thesis
  proof
    assume "new = []"
    then show ?thesis using k pf by simp
  next
    assume "\<exists>x. new = [x] \<and> (res = None \<or> br_status x \<noteq> pending)"
    then obtain x where x: "new = [x]" "res = None \<or> br_status x \<noteq> pending" by blast
    show ?thesis using k pf x by auto
  qed
qed

lemma assign_loop_pending:
  assumes "keyed w" and "pending_for t w = []"
  shows "length (pending_for t (snd (snd (assign_loop t ds i polls w)))) \<le> 1
       \<and> (fst (assign_loop t ds i polls w) \<noteq> Unsettled \<longrightarrow>
            pending_for t (snd (snd (assign_loop t ds i polls w))) = [])"
  using assms
proof (induction "min (length ds) MAX_ASSIGNMENT_ATTEMPTS - i" arbitrary: i polls w)
  case 0
  then have "\<not> i < min (length ds) MAX_ASSIGNMENT_ATTEMPTS" by arith
  then show ?case using assign_loop_done[of i ds t polls w] "0.prems"(2) by simp
next
  case (Suc n)
  then have lt: "i < min (length ds) MAX_ASSIGNMENT_ATTEMPTS" by arith
  obtain res ps' w' where
    s: "sendAssignmentRequest t (user_id (row_driver (ds ! i))) polls w = (res, ps', w')"
    by (cases "sendAssignmentRequest t (user_id (row_driver (ds ! i))) polls w") auto
  note p = sendAssignmentRequest_pending[OF Suc.prems s]
  show ?case
  proof (cases res)
    case None
    show ?thesis using assign_loop_unsettled[OF lt s[unfolded None]] p by simp
  next
    case (Some b)
    have none: "pending_for t w' = []" using p Some by simp
    show ?thesis
    proof (cases b)
      case True
      have s': "sendAssignmentRequest t (user_id (row_driver (ds ! i))) polls w
                  = (Some True, ps', w')"
        using s Some True by simp
      show ?thesis using assign_loop_accepted[OF lt s'] none by simp
    next
      case False
      have n: "n = min (length ds) MAX_ASSIGNMENT_ATTEMPTS - Suc i" using Suc.hyps(2) by arith
      have k': "keyed w'" using p by simp
      have s': "sendAssignmentRequest t (user_id (row_driver (ds ! i))) polls w
                  = (Some False, ps', w')"
        using s Some False by simp
      show ?thesis
        using Suc.hyps(1)[OF n k' none, of ps'] assign_loop_next[OF lt s'] by simp
    qed
  qed
qed





subsection \<open>The loop settles while the store answers\<close>



subsection \<open>findAndAssignDriver\<close>

lemma getNearestDrivers_world: "snd (getNearestDrivers la lo rg md w) = answered w"
  by (simp add: getNearestDrivers_def)

lemma answered_frame [simp]:
  "booking_requests (answered w) = booking_requests w"
  "outage (answered w) = outage w"
  "next_request_id (answered w) = next_request_id w"
  "clock (answered w) = clock w"
  by (simp_all add: answered_def)

lemma keyed_answered [simp]: "keyed (answered w) = keyed w"
  by (simp add: keyed_def)

lemma pending_for_answered [simp]: "pending_for t (answered w) = pending_for t w"
  by (simp add: pending_for_def)

lemma created_answered [simp]: "created (answered w) w' = created w w'"
  by (simp add: created_def)

lemma findAndAssignDriver_cases:
  assumes "fst (getNearestDrivers (pickupLng td) (pickupLat td) (trip_region td)
             (case maxDistance td of None \<Rightarrow> 5 | Some m \<Rightarrow> m) w) = Inr ds"
  shows "findAndAssignDriver td polls w
           = (if ds = [] then (Fulfilled no_drivers_reply, polls, answered w)
              else assign_loop (tripId td) ds 0 polls (answered w))"
proof -
  have "getNearestDrivers (pickupLng td) (pickupLat td) (trip_region td)
             (case maxDistance td of None \<Rightarrow> 5 | Some m \<Rightarrow> m) w = (Inr ds, answered w)"
    using assms getNearestDrivers_world[of "pickupLng td" "pickupLat td" "trip_region td"
        "case maxDistance td of None \<Rightarrow> 5 | Some m \<Rightarrow> m" w]
    by (simp add: prod_eq_iff)
  then show ?thesis by (simp add: findAndAssignDriver_def no_drivers_reply_def)
qed


text \<open>
  C6. Start a dispatch for a trip that has no pending request, in a table with primary
  keys. Whatever the timer firings and whatever drivers and clients do between them, the
  world the flow has reached has at most one pending request for the trip, and none once
  \<open>findAndAssignDriver\<close> has settled. The list of firings is arbitrary, so this holds after
  every firing of a flow. The last part is why: an attempt of \<open>sendAssignmentRequest\<close> that
  has settled (its INSERT threw, or its wait resolved) leaves no pending request for the
  trip, and the loop creates the next request only after that.
\<close>

theorem at_most_one_pending_request:
  assumes "keyed w" and "pending_for (tripId td) w = []"
  shows "length (pending_for (tripId td) (snd (snd (findAndAssignDriver td polls w)))) \<le> 1
       \<and> (fst (findAndAssignDriver td polls w) \<noteq> Unsettled \<longrightarrow>
            pending_for (tripId td) (snd (snd (findAndAssignDriver td polls w))) = [])
       \<and> (fst (sendAssignmentRequest (tripId td) d polls w) \<noteq> None \<longrightarrow>
            pending_for (tripId td) (snd (snd (sendAssignmentRequest (tripId td) d polls w))) = [])"
proof -
  let ?g = "getNearestDrivers (pickupLng td) (pickupLat td) (trip_region td)
             (case maxDistance td of None \<Rightarrow> 5 | Some m \<Rightarrow> m) w"
  have k: "keyed (answered w)" and p: "pending_for (tripId td) (answered w) = []"
    using assms by simp_all
  have find: "length (pending_for (tripId td) (snd (snd (findAndAssignDriver td polls w)))) \<le> 1
       \<and> (fst (findAndAssignDriver td polls w) \<noteq> Unsettled \<longrightarrow>
            pending_for (tripId td) (snd (snd (findAndAssignDriver td polls w))) = [])"
  proof (cases "fst ?g")
    case (Inl e)
    then have "findAndAssignDriver td polls w = (Thrown e, polls, answered w)"
      using getNearestDrivers_world[of "pickupLng td" "pickupLat td" "trip_region td"
        "case maxDistance td of None \<Rightarrow> 5 | Some m \<Rightarrow> m" w]
      by (cases ?g) (simp add: findAndAssignDriver_def)
    then show ?thesis using p by simp
  next
    case (Inr ds)
    show ?thesis
    proof (cases "ds = []")
      case True
      then show ?thesis using findAndAssignDriver_cases[OF Inr, of polls] p by simp
    next
      case False
      then show ?thesis
        using findAndAssignDriver_cases[OF Inr, of polls]
          assign_loop_pending[OF k p, of ds 0 polls] by simp
    qed
  qed
  obtain res ps' w' where s: "sendAssignmentRequest (tripId td) d polls w = (res, ps', w')"
    by (cases "sendAssignmentRequest (tripId td) d polls w") auto
  have "res \<noteq> None \<longrightarrow> pending_for (tripId td) w' = []"
    using sendAssignmentRequest_pending[OF assms s] by simp
  then show ?thesis using find s by simp
qed



subsection \<open>The example dispatch\<close>

lemma sql_distance_origin [simp]: "sql_distance 0 0 0 0 = 0"
  by (simp add: sql_distance_def radians_def)

lemma city_nearest:
  "getNearestDrivers 0 0 ''Kigali'' 5 city = (Inr city_candidates, answered city)"
  by (simp add: getNearestDrivers_def city_def city_candidates_def store_fails_def
      drivers_join_users_def eligible_def select_row_def driver_distance_def
      List.map_filter_def)

lemma city_found:
  "fst (getNearestDrivers (pickupLng city_trip) (pickupLat city_trip) (trip_region city_trip)
          (case maxDistance city_trip of None \<Rightarrow> 5 | Some m \<Rightarrow> m) city) = Inr city_candidates"
  by (simp add: city_trip_def city_nearest)

lemma city_dispatch:
  "findAndAssignDriver city_trip polls city
     = assign_loop 7 city_candidates 0 polls (answered city)"
  using findAndAssignDriver_cases[OF city_found, of polls]
  by (simp add: city_candidates_def city_trip_def)

lemma city_run:
  "fst (findAndAssignDriver city_trip first_rejects_second_accepts city)
     = Fulfilled \<lparr>success = True, message = ''Driver assigned successfully'',
          driverId = Some 6, driverName = Some ''Bob'', driverRating = Some 4,
          distance = Some 0\<rparr>
   \<and> map br_driver_id (booking_requests
         (snd (snd (findAndAssignDriver city_trip first_rejects_second_accepts city)))) = [5, 6]
   \<and> map br_status (booking_requests
         (snd (snd (findAndAssignDriver city_trip first_rejects_second_accepts city))))
       = [rejected, accepted]"
  unfolding city_dispatch
  by (simp add: first_rejects_second_accepts_def
      assign_loop.simps MAX_ASSIGNMENT_ATTEMPTS_def city_candidates_def
      sendAssignmentRequest_def insert_query_def waitForDriverResponse_def
      ACCEPT_TIMEOUT_def status_query_def expire_query_def run_actions_def elapse_def
      acceptBooking_def accept_query_def bind_trip_query_def rejectBooking_def reject_query_def
      returning_def update_where_def store_fails_def answered_def city_def)

lemma keyed_city: "keyed city"
  by (simp add: keyed_def city_def)

lemma pending_city: "pending_for 7 city = []"
  by (simp add: pending_for_def city_def)

lemma tripId_city [simp]: "tripId city_trip = 7"
  by (simp add: city_trip_def)


text \<open>The theorem in \<open>city\<close>, during the first wait and after the dispatch.\<close>

theorem at_most_one_pending_request_witness:
  "keyed city \<and> pending_for 7 city = []
   \<and> length (pending_for 7 (snd (snd (findAndAssignDriver city_trip driver_silent city)))) \<le> 1
   \<and> pending_for 7 (snd (snd (findAndAssignDriver city_trip first_rejects_second_accepts city)))
       = []"
proof -
  have p: "pending_for (tripId city_trip) city = []" using pending_city by simp
  note a = at_most_one_pending_request[OF keyed_city p, of driver_silent 5]
  note b = at_most_one_pending_request[OF keyed_city p, of first_rejects_second_accepts 5]
  have "fst (findAndAssignDriver city_trip first_rejects_second_accepts city) \<noteq> Unsettled"
    using city_run by simp
  then show ?thesis using a b keyed_city pending_city by simp
qed




subsection \<open>The dispatch does not read the trips\<close>




















subsection \<open>A cancelled trip\<close>


subsection \<open>The pickup point\<close>

lemma radians_values [simp]: "radians 0 = 0" "radians 90 = pi / 2"
  by (simp_all add: radians_def)



lemma set_map_filter:
  "set (List.map_filter f xs) = {y. \<exists>x. x \<in> set xs \<and> f x = Some y}"
  by (induction xs) (auto split: option.splits)

text \<open>
  Called with a latitude and a longitude in the order it declares them,
  \<open>getNearestDrivers\<close> returns the eligible drivers of the region within \<open>maxDistance\<close> of
  that point, sorted by their distance from it.
\<close>

lemma getNearestDrivers_sorted_exact:
  assumes "fst (getNearestDrivers la lo rg md w) = Inr rows"
  shows "sorted (map row_distance rows)
       \<and> set rows = {r. \<exists>du. du \<in> set (drivers_join_users w) \<and> eligible rg du
                         \<and> select_row lo la du = Some r \<and> row_distance r \<le> md}"
proof -
  have rows: "rows = sort_key row_distance
               (filter (\<lambda>r. row_distance r \<le> md)
                  (List.map_filter (select_row lo la)
                     (filter (eligible rg) (drivers_join_users w))))"
    using assms by (simp add: getNearestDrivers_def split: if_splits)
  have "sorted (map row_distance rows)" unfolding rows by (rule sorted_sort_key)
  moreover have "set rows = {r. \<exists>du. du \<in> set (drivers_join_users w) \<and> eligible rg du
                         \<and> select_row lo la du = Some r \<and> row_distance r \<le> md}"
    unfolding rows set_sort set_filter set_map_filter by blast
  ultimately show ?thesis by blast
qed




subsection \<open>More firings\<close>

text \<open>
  A wait over a longer list of firings passes through the world that the wait over a
  prefix of the list ends in: when the prefix leaves the promise unsettled, the wait goes on
  from there with the rest; when it settles the promise, the rest is left untouched.
\<close>

lemma checkInterval_append:
  "checkInterval k timeout start (ps @ qs) w
     = (case checkInterval k timeout start ps w of
          (None, rest, w') \<Rightarrow> checkInterval k timeout start qs w'
        | (Some b, rest, w') \<Rightarrow> (Some b, rest @ qs, w'))"
proof (induction ps arbitrary: w)
  case Nil
  show ?case by simp
next
  case (Cons p ps)
  let ?W0 = "run_actions (before_select p) (elapse (delay p) w)"
  obtain res w1 where sq: "status_query k ?W0 = (res, w1)" by (cases "status_query k ?W0")
  obtain res2 w2 where eq: "expire_query k (run_actions (before_update p) w1) = (res2, w2)"
    by (cases "expire_query k (run_actions (before_update p) w1)")
  show ?case
  proof (cases res)
    case (Inl e)
    then show ?thesis using sq Cons.IH[of w1] by simp
  next
    case (Inr rows)
    show ?thesis
    proof (cases rows)
      case Nil
      then show ?thesis using sq Inr by simp
    next
      case rows: (Cons st sts)
      consider (acc) "st = accepted" | (rej) "st = rejected"
        | (late) "st \<noteq> accepted" "st \<noteq> rejected" "clock w1 - start > timeout"
        | (wait) "st \<noteq> accepted" "st \<noteq> rejected" "\<not> clock w1 - start > timeout"
        by blast
      then show ?thesis
      proof cases
        case acc
        then show ?thesis using sq Inr rows by simp
      next
        case rej
        then show ?thesis using sq Inr rows by simp
      next
        case late
        show ?thesis
        proof (cases res2)
          case (Inl e)
          then show ?thesis using sq eq Inr rows late Cons.IH[of w2] by simp
        next
          case u: (Inr u)
          then show ?thesis using sq eq Inr rows late by simp
        qed
      next
        case wait
        then show ?thesis using sq Inr rows Cons.IH[of w1] by simp
      qed
    qed
  qed
qed

subsection \<open>Statuses that stay\<close>

lemma filter_find: "find P xs = Some r \<Longrightarrow> \<exists>rest. filter P xs = r # rest"
  by (induction xs) (auto split: if_splits)

lemma find_update_where_hit:
  "find P rows = Some r \<Longrightarrow> (\<And>x. P (f x) = P x) \<Longrightarrow>
   find P (update_where hit f rows) = Some (if hit r then f r else r)"
  by (induction rows) (auto simp: update_where_def split: if_splits)

lemma expire_query_Inl:
  "expire_query k w = (Inl e, w2) \<Longrightarrow> booking_requests w2 = booking_requests w"
  by (auto simp: expire_query_def answered_def split: if_splits)

lemma run_actions_Nil [simp]: "run_actions [] w = w"
  by (simp add: run_actions_def)

lemma quiet_wait_keeps_status:
  assumes "find (\<lambda>x. br_id x = k) (booking_requests w) = Some r"
    and "br_status r \<noteq> pending"
    and "list_all (\<lambda>p. before_select p = [] \<and> before_update p = []) polls"
  shows "\<exists>r'. find (\<lambda>x. br_id x = k)
               (booking_requests (snd (snd (checkInterval k' timeout start polls w)))) = Some r'
           \<and> br_status r' = br_status r"
  using assms
proof (induction polls arbitrary: w r)
  case Nil
  then show ?case by simp
next
  case (Cons p ps)
  note IH = Cons.IH and found = Cons.prems(1) and terminal = Cons.prems(2)
  have quiet: "before_select p = []" "before_update p = []"
    and rest: "list_all (\<lambda>p. before_select p = [] \<and> before_update p = []) ps"
    using Cons.prems(3) by simp_all
  let ?W0 = "elapse (delay p) w"
  obtain res w1 where sq: "status_query k' ?W0 = (res, w1)" by (cases "status_query k' ?W0")
  have r1: "booking_requests w1 = booking_requests w"
    using rows_status_query[of k' ?W0] sq by simp
  have f1: "find (\<lambda>x. br_id x = k) (booking_requests w1) = Some r" using found r1 by simp
  obtain res2 w2 where eq: "expire_query k' w1 = (res2, w2)" by (cases "expire_query k' w1")
  have here: "\<exists>r'. find (\<lambda>x. br_id x = k) (booking_requests w1) = Some r'
           \<and> br_status r' = br_status r"
    using f1 by simp
  show ?case
  proof (cases res)
    case (Inl e)
    then show ?thesis using sq quiet IH[OF f1 terminal rest] by simp
  next
    case (Inr rows)
    note sel = status_query_Inr[OF sq[unfolded Inr]]
    show ?thesis
    proof (cases rows)
      case Nil
      then show ?thesis using sq quiet Inr here by simp
    next
      case rows: (Cons st sts)
      consider (acc) "st = accepted" | (rej) "st = rejected"
        | (late) "st \<noteq> accepted" "st \<noteq> rejected" "clock w1 - start > timeout"
        | (wait) "st \<noteq> accepted" "st \<noteq> rejected" "\<not> clock w1 - start > timeout"
        by blast
      then show ?thesis
      proof cases
        case acc
        then show ?thesis using sq quiet Inr rows here by simp
      next
        case rej
        then show ?thesis using sq quiet Inr rows here by simp
      next
        case late
        show ?thesis
        proof (cases res2)
          case (Inl e)
          have f2: "find (\<lambda>x. br_id x = k) (booking_requests w2) = Some r"
            using expire_query_Inl[OF eq[unfolded Inl]] f1 by simp
          show ?thesis using sq eq quiet Inr rows late Inl IH[OF f2 terminal rest] by simp
        next
          case u: (Inr u)
          have w2: "booking_requests w2 = update_where (\<lambda>r. br_id r = k')
                      (\<lambda>r. r\<lparr>br_status := expired\<rparr>) (booking_requests w1)"
            using expire_query_Inr eq u by simp
          have f2: "find (\<lambda>x. br_id x = k) (booking_requests w2)
                      = Some (if br_id r = k' then r\<lparr>br_status := expired\<rparr> else r)"
            unfolding w2 using find_update_where_hit[OF f1, of "\<lambda>r. r\<lparr>br_status := expired\<rparr>"
                "\<lambda>r. br_id r = k'"] by simp
          have same: "br_status (if br_id r = k' then r\<lparr>br_status := expired\<rparr> else r)
                        = br_status r"
          proof (cases "br_id r = k'")
            case True
            have "br_id r = k" using find_Some_holds[OF found] .
            then have k: "k' = k" using True by simp
            from filter_find[OF f1] obtain more where
              "filter (\<lambda>x. br_id x = k) (booking_requests w1) = r # more" by blast
            then have "st = br_status r" using sel r1 rows k by simp
            then have "br_status r = expired" using late terminal by (cases "br_status r") auto
            then show ?thesis by simp
          next
            case False
            then show ?thesis by simp
          qed
          have "snd (snd (checkInterval k' timeout start (p # ps) w)) = w2"
            using sq eq quiet Inr rows late u by simp
          then show ?thesis using f2 same by simp
        qed
      next
        case wait
        then show ?thesis using sq quiet Inr rows IH[OF f1 terminal rest] by simp
      qed
    qed
  qed
qed

text \<open>
  C2 (as amended). A request that has left pending never reads pending again: not after
  \<open>acceptBooking\<close>, not after \<open>rejectBooking\<close>, and not after a wait of
  \<open>waitForDriverResponse\<close> (for any request, with any calls of drivers and clients between
  its polls and with its expiry update). A call of \<open>acceptBooking\<close> or \<open>rejectBooking\<close> for
  another request id or by another driver leaves its status as it is, and so does a wait
  during which no other call reaches the store: the expiry update of a poll that read the
  request as accepted, rejected or expired does not change it. Nothing is said of a call
  with the request's own id and driver: it overwrites the status.
\<close>

theorem left_pending_never_returns:
  assumes "find (\<lambda>x. br_id x = k) (booking_requests w) = Some r"
    and "br_status r \<noteq> pending"
  shows "(\<exists>s. request_status_of k (snd (acceptBooking k' d w)) = Some s \<and> s \<noteq> pending)
       \<and> (\<exists>s. request_status_of k (snd (rejectBooking k' d reason w)) = Some s \<and> s \<noteq> pending)
       \<and> (\<exists>s. request_status_of k (snd (snd (waitForDriverResponse k' timeout polls w))) = Some s
              \<and> s \<noteq> pending)
       \<and> (k' \<noteq> k \<or> d \<noteq> br_driver_id r \<longrightarrow>
            request_status_of k (snd (acceptBooking k' d w)) = Some (br_status r)
          \<and> request_status_of k (snd (rejectBooking k' d reason w)) = Some (br_status r))
       \<and> (list_all (\<lambda>p. before_select p = [] \<and> before_update p = []) polls \<longrightarrow>
            request_status_of k (snd (snd (waitForDriverResponse k' timeout polls w)))
              = Some (br_status r))"
proof -
  have keep: "\<exists>s. request_status_of k w' = Some s \<and> s \<noteq> pending"
    if "evolves (booking_requests w) (booking_requests w')" for w'
    using evolves_find[OF that assms(1)] assms(2) by (auto simp: request_status_of_def)
  have a: "\<exists>s. request_status_of k (snd (acceptBooking k' d w)) = Some s \<and> s \<noteq> pending"
    by (rule keep[OF evolves_acceptBooking])
  have b: "\<exists>s. request_status_of k (snd (rejectBooking k' d reason w)) = Some s \<and> s \<noteq> pending"
    by (rule keep[OF evolves_rejectBooking])
  have c: "\<exists>s. request_status_of k (snd (snd (waitForDriverResponse k' timeout polls w))) = Some s
              \<and> s \<noteq> pending"
    unfolding waitForDriverResponse_def by (rule keep[OF evolves_checkInterval])
  have e: "request_status_of k (snd (acceptBooking k' d w)) = Some (br_status r)
          \<and> request_status_of k (snd (rejectBooking k' d reason w)) = Some (br_status r)"
    if "k' \<noteq> k \<or> d \<noteq> br_driver_id r"
    using status_kept_accept_query[OF assms(1) that] status_kept_reject_query[OF assms(1) that]
    by (simp add: request_status_of_def rows_acceptBooking rows_rejectBooking)
  have q: "request_status_of k (snd (snd (waitForDriverResponse k' timeout polls w)))
              = Some (br_status r)"
    if "list_all (\<lambda>p. before_select p = [] \<and> before_update p = []) polls"
    using quiet_wait_keeps_status[OF assms that, of k' timeout "clock w"]
    by (auto simp: request_status_of_def waitForDriverResponse_def)
  show ?thesis by (intro conjI impI a b c) (use e q in blast)+
qed

text \<open>The theorem at the rejected request 2 of \<open>ledger\<close>.\<close>

theorem left_pending_never_returns_witness:
  "(\<exists>s. request_status_of 2 (snd (acceptBooking 2 5 ledger)) = Some s \<and> s \<noteq> pending)
   \<and> (\<exists>s. request_status_of 2 (snd (rejectBooking 2 5 ''late'' ledger)) = Some s \<and> s \<noteq> pending)
   \<and> (\<exists>s. request_status_of 2 (snd (snd (waitForDriverResponse 2 ACCEPT_TIMEOUT
              [\<lparr>delay = 1000, before_select = [DriverAccepts 2 5], before_update = []\<rparr>] ledger)))
            = Some s \<and> s \<noteq> pending)
   \<and> request_status_of 2 (snd (acceptBooking 2 6 ledger)) = Some rejected
   \<and> request_status_of 2 (snd (rejectBooking 3 5 ''late'' ledger)) = Some rejected
   \<and> request_status_of 2 (snd (snd (waitForDriverResponse 3 ACCEPT_TIMEOUT
          [\<lparr>delay = 61000, before_select = [], before_update = []\<rparr>] ledger))) = Some rejected"
  using left_pending_never_returns
      [of 2 ledger
          "\<lparr>br_id = 2, br_trip_id = 8, br_driver_id = 5, br_status = rejected,
            rejection_reason = Some ''busy'', accepted_at = None, rejected_at = Some 1000,
            expires_at = 60000, created_at = 0\<rparr>" 2 5 "''late''" ACCEPT_TIMEOUT
          "[\<lparr>delay = 1000, before_select = [DriverAccepts 2 5], before_update = []\<rparr>]"]
    left_pending_never_returns
      [of 2 ledger
          "\<lparr>br_id = 2, br_trip_id = 8, br_driver_id = 5, br_status = rejected,
            rejection_reason = Some ''busy'', accepted_at = None, rejected_at = Some 1000,
            expires_at = 60000, created_at = 0\<rparr>" 2 6 "''late''"]
    left_pending_never_returns
      [of 2 ledger
          "\<lparr>br_id = 2, br_trip_id = 8, br_driver_id = 5, br_status = rejected,
            rejection_reason = Some ''busy'', accepted_at = None, rejected_at = Some 1000,
            expires_at = 60000, created_at = 0\<rparr>" 3 5 "''late''"]
    left_pending_never_returns
      [of 2 ledger
          "\<lparr>br_id = 2, br_trip_id = 8, br_driver_id = 5, br_status = rejected,
            rejection_reason = Some ''busy'', accepted_at = None, rejected_at = Some 1000,
            expires_at = 60000, created_at = 0\<rparr>" 3 5 "''late''" ACCEPT_TIMEOUT
          "[\<lparr>delay = 61000, before_select = [], before_update = []\<rparr>]"]
  by (simp add: ledger_def)

text \<open>
  C2 as stated fails: the rejected request 2 of \<open>ledger\<close> reads accepted after its driver
  calls \<open>acceptBooking\<close>, and the expired request 3 reads rejected after its driver calls
  \<open>rejectBooking\<close>.
\<close>

theorem terminal_status_overwritten_counterexample:
  "request_status_of 2 ledger = Some rejected
   \<and> request_status_of 2 (snd (acceptBooking 2 5 ledger)) = Some accepted
   \<and> request_status_of 3 ledger = Some expired
   \<and> request_status_of 3 (snd (rejectBooking 3 6 ''late'' ledger)) = Some rejected"
  by (simp add: ledger_def acceptBooking_def accept_query_def bind_trip_query_def
      rejectBooking_def reject_query_def
      request_status_of_def returning_def update_where_def store_fails_def answered_def)






end
